theory Spec2Isabelle
  imports Complex_Main "HOL-Library.Multiset"
begin

section \<open>Data model of DeterministicLinePlot.tsx\<close>

text \<open>
  A JavaScript number is modelled as a \<^typ>\<open>real\<close> (NaN, the infinities and the rounding of
  IEEE doubles are outside the model); a timestamp (\<open>x.time\<close>, \<open>Date.getTime()\<close>) is an
  \<^typ>\<open>int\<close> of epoch milliseconds. An optional number (\<open>cases?: number\<close>) is a
  \<^typ>\<open>real option\<close>, \<open>None\<close> being \<open>undefined\<close>.

  The value of a property of a plotted point is \<open>undefined\<close>, a number, or the two-element
  array of an uncertainty band.
\<close>

datatype jsval = Undefined | Num real | Area real real

datatype error = TypeError

text \<open>\<open>x.current.<compartment>.total\<close> and \<open>x.cumulative.<compartment>.total\<close>.\<close>

record Current =
  susceptible :: real
  infectious :: real
  severe :: real
  critical :: real
  overflow :: real

record Cumulative =
  recovered :: real
  fatality :: real

record ExportedTimePoint =
  time :: int
  current :: Current
  cumulative :: Cumulative

record Trajectory =
  mean :: "ExportedTimePoint list"
  lower :: "ExportedTimePoint list"
  upper :: "ExportedTimePoint list"

record AlgorithmResult =
  trajectory :: Trajectory

text \<open>One element of \<open>EmpiricalData\<close>; \<open>e_time\<close> is \<open>new Date(d.time).getTime()\<close>.\<close>

record EmpiricalDatum =
  e_time :: int
  cases :: "real option"
  deaths :: "real option"
  icu :: "real option"
  hospitalized :: "real option"

record Population =
  hospitalBeds :: real
  ICUBeds :: real

record MitigationInterval =
  iv_id :: string
  iv_name :: string
  iv_color :: string
  timeRange_tMin :: int
  timeRange_tMax :: int
  mitigationValue :: real

record LinePlotProps =
  data :: "AlgorithmResult option"
  population :: Population
  mitigationIntervals :: "MitigationInterval list"
  logScale :: bool
  caseCounts :: "EmpiricalDatum list option"

text \<open>
  An element of \<open>plotData\<close>: an object whose property \<open>time\<close> is always a number and whose
  other own properties are \<open>p_fields\<close>. A key that is an own property with the value
  \<open>undefined\<close> maps to \<open>Some Undefined\<close>; a key that is no own property maps to \<open>None\<close>.
  The object spread of the source tells the two apart.
\<close>

record PlotDatum =
  p_time :: int
  p_fields :: "string \<rightharpoonup> jsval"

text \<open>\<open>d[k]\<close>: reading a property that the object does not have gives \<open>undefined\<close>.\<close>

definition getProp :: "PlotDatum \<Rightarrow> string \<Rightarrow> jsval" where
  "getProp d k =
     (if k = ''time'' then Num (real_of_int (p_time d))
      else case p_fields d k of None \<Rightarrow> Undefined | Some v \<Rightarrow> v)"

text \<open>\<open>Object.values(DATA_POINTS)\<close>, the initial state of \<open>enabledPlots\<close>, in declaration order.\<close>

definition DATA_POINTS_values :: "string list" where
  "DATA_POINTS_values =
     [''exposed'', ''susceptible'', ''infectious'', ''severe'', ''critical'', ''overflow'',
      ''recovered'', ''fatality'', ''cumulativeCases'', ''newCases'', ''hospitalBeds'',
      ''ICUbeds'', ''observedDeaths'', ''cases'', ''currentHospitalized'', ''ICU'',
      ''newCases'']"

section \<open>Helpers of the host language\<close>

text \<open>Truthiness of an optional number: \<open>undefined\<close> and \<open>0\<close> are falsy.\<close>

definition truthy :: "real option \<Rightarrow> bool" where
  "truthy v = (case v of None \<Rightarrow> False | Some x \<Rightarrow> x \<noteq> 0)"

text \<open>\<open>v || undefined\<close> for an optional number \<open>v\<close>.\<close>

definition orUndefined :: "real option \<Rightarrow> jsval" where
  "orUndefined v = (case v of None \<Rightarrow> Undefined | Some x \<Rightarrow> if x = 0 then Undefined else Num x)"

text \<open>\<open>Math.round\<close>: the nearest integer, a half rounded up.\<close>

definition Math_round :: "real \<Rightarrow> real" where
  "Math_round x = of_int \<lfloor>x + 1 / 2\<rfloor>"

text \<open>Collecting the results of a \<open>map\<close> callback that may throw: the first throw wins.\<close>

fun collect :: "(error + 'a) list \<Rightarrow> error + 'a list" where
  "collect [] = Inr []"
| "collect (r # rs) =
     (case r of
        Inl e \<Rightarrow> Inl e
      | Inr v \<Rightarrow> (case collect rs of Inl e \<Rightarrow> Inl e | Inr vs \<Rightarrow> Inr (v # vs)))"

section \<open>Observations\<close>

definition verifyPositive :: "real \<Rightarrow> real option" where
  "verifyPositive x = (if x > 0 then Some x else None)"

definition nonEmptyCaseCounts :: "EmpiricalDatum list \<Rightarrow> EmpiricalDatum list" where
  "nonEmptyCaseCounts cc =
     filter (\<lambda>d. truthy (cases d) \<or> truthy (deaths d) \<or> truthy (icu d) \<or> truthy (hospitalized d)) cc"

definition caseStep :: nat where
  "caseStep = 3"

text \<open>
  \<open>newCases(cc, i)\<close>. The conjunction short-circuits: \<open>cc[i]\<close> is read only when
  \<open>i >= caseStep\<close>, and reading \<open>.cases\<close> of a missing element throws.
\<close>

definition newCases :: "EmpiricalDatum list \<Rightarrow> nat \<Rightarrow> error + real option" where
  "newCases cc i =
     (if i \<ge> caseStep then
        (if i < length cc then
           (if truthy (cases (cc ! i)) \<and> truthy (cases (cc ! (i - caseStep)))
            then Inr (verifyPositive (the (cases (cc ! i)) - the (cases (cc ! (i - caseStep)))))
            else Inr None)
         else Inl TypeError)
      else Inr None)"

definition optToJs :: "real option \<Rightarrow> jsval" where
  "optToJs v = (case v of None \<Rightarrow> Undefined | Some x \<Rightarrow> Num x)"

text \<open>
  The properties of the object literal in the callback of
  \<open>nonEmptyCaseCounts?.map((d, i) => ...)\<close>, \<open>time\<close> apart; \<open>nc\<close> is the value of
  \<open>newCases(nonEmptyCaseCounts, i)\<close> when that call is made.
\<close>

definition observationFields ::
  "string list \<Rightarrow> real option \<Rightarrow> real option \<Rightarrow> EmpiricalDatum \<Rightarrow> real option \<Rightarrow> string \<rightharpoonup> jsval" where
  "observationFields enabledPlots nHospitalBeds nICUBeds d nc =
     map_of
       [(''cases'', if ''cases'' \<in> set enabledPlots then orUndefined (cases d) else Undefined),
        (''observedDeaths'',
           if ''observedDeaths'' \<in> set enabledPlots then orUndefined (deaths d) else Undefined),
        (''currentHospitalized'',
           if ''currentHospitalized'' \<in> set enabledPlots
           then orUndefined (hospitalized d) else Undefined),
        (''ICU'', if ''ICU'' \<in> set enabledPlots then orUndefined (icu d) else Undefined),
        (''newCases'', optToJs nc),
        (''hospitalBeds'', optToJs nHospitalBeds),
        (''ICUbeds'', optToJs nICUBeds)]"

text \<open>
  The callback at index \<open>i\<close>: \<open>newCases\<close> is called, and can throw, only when the key
  \<open>newCases\<close> is enabled.
\<close>

definition observation ::
  "string list \<Rightarrow> real option \<Rightarrow> real option \<Rightarrow> EmpiricalDatum list \<Rightarrow> nat \<Rightarrow> error + PlotDatum" where
  "observation enabledPlots nHospitalBeds nICUBeds cc i =
     (let d = cc ! i in
      case (if ''newCases'' \<in> set enabledPlots then newCases cc i else Inr None) of
        Inl e \<Rightarrow> Inl e
      | Inr nc \<Rightarrow>
          Inr \<lparr>p_time = e_time d,
               p_fields = observationFields enabledPlots nHospitalBeds nICUBeds d nc\<rparr>)"

text \<open>\<open>observations\<close>: \<open>[]\<close> when \<open>caseCounts\<close> is \<open>undefined\<close>.\<close>

definition observations ::
  "string list \<Rightarrow> real option \<Rightarrow> real option \<Rightarrow> EmpiricalDatum list option \<Rightarrow> error + PlotDatum list" where
  "observations enabledPlots nHospitalBeds nICUBeds cco =
     (case cco of
        None \<Rightarrow> Inr []
      | Some cc \<Rightarrow>
          (let ne = nonEmptyCaseCounts cc
           in collect (map (observation enabledPlots nHospitalBeds nICUBeds ne) [0..<length ne])))"

section \<open>The trajectory\<close>

text \<open>\<open>Math.round(v) || undefined\<close>.\<close>

definition roundOrUndefined :: "real \<Rightarrow> jsval" where
  "roundOrUndefined v = (if Math_round v = 0 then Undefined else Num (Math_round v))"

text \<open>
  \<open>[Math.round(lower[i]...total), Math.round(upper[i]...total)] || undefined\<close>, for an index
  in range of both arrays. An array is truthy, so \<open>|| undefined\<close> never applies.
\<close>

definition area ::
  "ExportedTimePoint list \<Rightarrow> ExportedTimePoint list \<Rightarrow> nat \<Rightarrow> (ExportedTimePoint \<Rightarrow> real) \<Rightarrow> jsval" where
  "area lo up i sel = Area (Math_round (sel (lo ! i))) (Math_round (sel (up ! i)))"

text \<open>The keys whose enabled state makes the callback read \<open>lower[i]\<close> and \<open>upper[i]\<close>.\<close>

definition computedKeys :: "string list" where
  "computedKeys =
     [''susceptible'', ''infectious'', ''severe'', ''critical'', ''overflow'', ''recovered'',
      ''fatality'']"

text \<open>
  The properties of the object literal in the callback of
  \<open>data.trajectory.mean.map((x, i) => ...)\<close>, \<open>time\<close> apart, for an index at which the
  literal can be built.
\<close>

definition plotFields ::
  "string list \<Rightarrow> real option \<Rightarrow> real option \<Rightarrow> ExportedTimePoint list \<Rightarrow> ExportedTimePoint list \<Rightarrow>
   ExportedTimePoint \<Rightarrow> nat \<Rightarrow> string \<rightharpoonup> jsval" where
  "plotFields enabledPlots nHospitalBeds nICUBeds lo up x i =
     map_of
     [(''susceptible'',
         if ''susceptible'' \<in> set enabledPlots
         then roundOrUndefined (susceptible (current x)) else Undefined),
      (''infectious'',
         if ''infectious'' \<in> set enabledPlots
         then roundOrUndefined (infectious (current x)) else Undefined),
      (''severe'',
         if ''severe'' \<in> set enabledPlots
         then roundOrUndefined (severe (current x)) else Undefined),
      (''critical'',
         if ''critical'' \<in> set enabledPlots
         then roundOrUndefined (critical (current x)) else Undefined),
      (''overflow'',
         if ''overflow'' \<in> set enabledPlots
         then roundOrUndefined (overflow (current x)) else Undefined),
      (''recovered'',
         if ''recovered'' \<in> set enabledPlots
         then roundOrUndefined (recovered (cumulative x)) else Undefined),
      (''fatality'',
         if ''fatality'' \<in> set enabledPlots
         then roundOrUndefined (fatality (cumulative x)) else Undefined),
      (''hospitalBeds'', optToJs nHospitalBeds),
      (''ICUbeds'', optToJs nICUBeds),
      (''susceptible_area'',
         if ''susceptible'' \<in> set enabledPlots
         then area lo up i (\<lambda>y. susceptible (current y)) else Undefined),
      (''infectious_area'',
         if ''infectious'' \<in> set enabledPlots
         then area lo up i (\<lambda>y. infectious (current y)) else Undefined),
      (''severe_area'',
         if ''severe'' \<in> set enabledPlots
         then area lo up i (\<lambda>y. severe (current y)) else Undefined),
      (''critical_area'',
         if ''critical'' \<in> set enabledPlots
         then area lo up i (\<lambda>y. critical (current y)) else Undefined),
      (''overflow_area'',
         if ''overflow'' \<in> set enabledPlots
         then area lo up i (\<lambda>y. overflow (current y)) else Undefined),
      (''recovered_area'',
         if ''recovered'' \<in> set enabledPlots
         then area lo up i (\<lambda>y. recovered (cumulative y)) else Undefined),
      (''fatality_area'',
         if ''fatality'' \<in> set enabledPlots
         then area lo up i (\<lambda>y. fatality (cumulative y)) else Undefined)]"

text \<open>
  The callback itself. The literal reads \<open>lower[i]\<close> and \<open>upper[i]\<close> only in the branches
  of an enabled metric; a missing element there throws a TypeError, which is the only way
  the callback fails.
\<close>

definition plotDatum ::
  "string list \<Rightarrow> real option \<Rightarrow> real option \<Rightarrow> ExportedTimePoint list \<Rightarrow> ExportedTimePoint list \<Rightarrow>
   ExportedTimePoint \<Rightarrow> nat \<Rightarrow> error + PlotDatum" where
  "plotDatum enabledPlots nHospitalBeds nICUBeds lo up x i =
     (if (\<exists>k \<in> set computedKeys. k \<in> set enabledPlots) \<and> \<not> (i < length lo \<and> i < length up)
      then Inl TypeError
      else Inr \<lparr>p_time = time x,
                p_fields = plotFields enabledPlots nHospitalBeds nICUBeds lo up x i\<rparr>)"

text \<open>The first half of the \<open>plotData\<close> literal: the mapped mean trajectory.\<close>

definition trajectoryData ::
  "string list \<Rightarrow> real option \<Rightarrow> real option \<Rightarrow> Trajectory \<Rightarrow> error + PlotDatum list" where
  "trajectoryData enabledPlots nHospitalBeds nICUBeds tr =
     collect (map (\<lambda>i. plotDatum enabledPlots nHospitalBeds nICUBeds (lower tr) (upper tr) (mean tr ! i) i)
                [0..<length (mean tr)])"

text \<open>
  \<open>plotData\<close> before the sort. \<open>observations\<close> is computed before the trajectory is
  mapped, so its failure would come first.
\<close>

definition plotData :: "string list \<Rightarrow> LinePlotProps \<Rightarrow> AlgorithmResult \<Rightarrow> error + PlotDatum list" where
  "plotData enabledPlots props dat =
     (let nHospitalBeds = verifyPositive (hospitalBeds (population props));
          nICUBeds = verifyPositive (ICUBeds (population props))
      in case observations enabledPlots nHospitalBeds nICUBeds (caseCounts props) of
           Inl e \<Rightarrow> Inl e
         | Inr obs \<Rightarrow>
             (case trajectoryData enabledPlots nHospitalBeds nICUBeds (trajectory dat) of
                Inl e \<Rightarrow> Inl e
              | Inr tps \<Rightarrow> Inr (tps @ obs)))"

section \<open>Sorting and consolidation\<close>

text \<open>The comparator of \<open>plotData.sort\<close>: it answers \<open>-1\<close> for equal timestamps too.\<close>

definition compareFn :: "PlotDatum \<Rightarrow> PlotDatum \<Rightarrow> int" where
  "compareFn a b = (if p_time a > p_time b then 1 else - 1)"

text \<open>
  \<open>Array.prototype.sort\<close> belongs to the host. It is modelled as an insertion sort that asks
  the comparator with the earlier element first; for elements the comparator ties (here:
  equal timestamps) the order the host leaves them in is its own choice, so the results
  below that depend on the sort are proved from sortedness and the multiset of elements.
\<close>

fun insertBy :: "('a \<Rightarrow> 'a \<Rightarrow> int) \<Rightarrow> 'a \<Rightarrow> 'a list \<Rightarrow> 'a list" where
  "insertBy cmp x [] = [x]"
| "insertBy cmp x (y # ys) = (if cmp x y > 0 then y # insertBy cmp x ys else x # y # ys)"

definition Array_sort :: "('a \<Rightarrow> 'a \<Rightarrow> int) \<Rightarrow> 'a list \<Rightarrow> 'a list" where
  "Array_sort cmp xs = foldr (insertBy cmp) xs []"

text \<open>\<open>{...a, ...d}\<close>: every own property of \<open>d\<close>, \<open>time\<close> included, overrides that of \<open>a\<close>.\<close>

definition spread :: "PlotDatum \<Rightarrow> PlotDatum \<Rightarrow> PlotDatum" where
  "spread a d = \<lparr>p_time = p_time d, p_fields = p_fields a ++ p_fields d\<rparr>"

text \<open>The body of \<open>plotData.forEach((d) => ...)\<close> on the array \<open>consolidatedPlotData\<close>.\<close>

definition consolidateStep :: "PlotDatum list \<Rightarrow> PlotDatum \<Rightarrow> PlotDatum list" where
  "consolidateStep acc d =
     (if p_time d = p_time (last acc)
      then butlast acc @ [spread (last acc) d]
      else acc @ [d])"

text \<open>Called on a non-empty array only: the component returns before, on an empty one.\<close>

definition consolidate :: "PlotDatum list \<Rightarrow> PlotDatum list" where
  "consolidate sorted_data = foldl consolidateStep [hd sorted_data] sorted_data"

section \<open>Domains\<close>

text \<open>
  lodash's \<open>baseExtremum(array, iteratee, comparator)\<close>, behind \<open>_.max\<close>, \<open>_.minBy\<close> and
  \<open>_.maxBy\<close>: it skips \<open>undefined\<close>, takes the first remaining element and replaces it when
  the comparator prefers a later one. The state is the pair \<open>(result, computed)\<close>.
\<close>

definition extremumStep ::
  "('a \<Rightarrow> jsval) \<Rightarrow> (jsval \<Rightarrow> jsval \<Rightarrow> bool) \<Rightarrow> ('a \<times> jsval) option \<Rightarrow> 'a \<Rightarrow> ('a \<times> jsval) option" where
  "extremumStep iteratee comparator st v =
     (let cur = iteratee v
      in if cur \<noteq> Undefined \<and> (case st of None \<Rightarrow> True | Some (res, computed) \<Rightarrow> comparator cur computed)
         then Some (v, cur) else st)"

definition baseExtremum :: "'a list \<Rightarrow> ('a \<Rightarrow> jsval) \<Rightarrow> (jsval \<Rightarrow> jsval \<Rightarrow> bool) \<Rightarrow> 'a option" where
  "baseExtremum array iteratee comparator =
     map_option fst (foldl (extremumStep iteratee comparator) None array)"

text \<open>
  \<open>value > other\<close>. Two numbers compare as numbers. An array against a number converts to
  NaN (its string has a comma), so the answer is false. Two arrays compare as strings; that
  comparison is the parameter \<open>arrGt\<close>, and nothing below depends on it.
\<close>

fun baseGt :: "(real \<times> real \<Rightarrow> real \<times> real \<Rightarrow> bool) \<Rightarrow> jsval \<Rightarrow> jsval \<Rightarrow> bool" where
  "baseGt arrGt (Num a) (Num b) = (a > b)"
| "baseGt arrGt (Area a b) (Area c d) = arrGt (a, b) (c, d)"
| "baseGt arrGt _ _ = False"

definition baseLt :: "(real \<times> real \<Rightarrow> real \<times> real \<Rightarrow> bool) \<Rightarrow> jsval \<Rightarrow> jsval \<Rightarrow> bool" where
  "baseLt arrGt v other = baseGt arrGt other v"

definition lodash_max :: "(real \<times> real \<Rightarrow> real \<times> real \<Rightarrow> bool) \<Rightarrow> jsval list \<Rightarrow> jsval" where
  "lodash_max arrGt array =
     (case baseExtremum array (\<lambda>v. v) (baseGt arrGt) of None \<Rightarrow> Undefined | Some v \<Rightarrow> v)"

definition dataKeys :: "string list \<Rightarrow> string list" where
  "dataKeys enabledPlots = filter (\<lambda>d. d \<noteq> ''hospitalBeds'' \<and> d \<noteq> ''ICUbeds'') enabledPlots"

definition yDataMax ::
  "(real \<times> real \<Rightarrow> real \<times> real \<Rightarrow> bool) \<Rightarrow> string list \<Rightarrow> PlotDatum list \<Rightarrow> jsval" where
  "yDataMax arrGt enabledPlots consolidatedPlotData =
     lodash_max arrGt
       (map (\<lambda>d. lodash_max arrGt (map (\<lambda>k. getProp d k) (dataKeys enabledPlots))) consolidatedPlotData)"

text \<open>
  \<open>yDataMax * 1.1\<close>, the upper bound of the value axis. \<open>None\<close> is the NaN that the product
  is when \<open>yDataMax\<close> is \<open>undefined\<close> (or an array).
\<close>

definition yAxisMax :: "jsval \<Rightarrow> real option" where
  "yAxisMax m = (case m of Num v \<Rightarrow> Some (v * (11 / 10)) | _ \<Rightarrow> None)"

definition yAxisDomain :: "bool \<Rightarrow> jsval \<Rightarrow> real \<times> real option" where
  "yAxisDomain isLog m = (if isLog then (1, yAxisMax m) else (0, yAxisMax m))"

text \<open>\<open>_.minBy(plotData, 'time')!.time\<close> and \<open>_.maxBy(plotData, 'time')!.time\<close>.\<close>

definition tMin :: "(real \<times> real \<Rightarrow> real \<times> real \<Rightarrow> bool) \<Rightarrow> PlotDatum list \<Rightarrow> error + int" where
  "tMin arrGt pd =
     (case baseExtremum pd (\<lambda>d. getProp d ''time'') (baseLt arrGt) of
        None \<Rightarrow> Inl TypeError
      | Some d \<Rightarrow> Inr (p_time d))"

definition tMax :: "(real \<times> real \<Rightarrow> real \<times> real \<Rightarrow> bool) \<Rightarrow> PlotDatum list \<Rightarrow> error + int" where
  "tMax arrGt pd =
     (case baseExtremum pd (\<lambda>d. getProp d ''time'') (baseGt arrGt) of
        None \<Rightarrow> Inl TypeError
      | Some d \<Rightarrow> Inr (p_time d))"

section \<open>Mitigation intervals\<close>

text \<open>lodash's \<open>_.clamp(number, lower, upper)\<close> with all three arguments numbers.\<close>

definition clamp :: "'a::linorder \<Rightarrow> 'a \<Rightarrow> 'a \<Rightarrow> 'a" where
  "clamp number lo up =
     (let n = (if number \<le> up then number else up)
      in if n \<ge> lo then n else lo)"

text \<open>The props of one \<open>ReferenceArea\<close> element.\<close>

record ReferenceArea =
  ra_key :: string
  x1 :: int
  x2 :: int
  y1 :: real
  y2 :: real
  fill :: string
  label_value :: string

definition referenceArea :: "int \<Rightarrow> int \<Rightarrow> MitigationInterval \<Rightarrow> ReferenceArea" where
  "referenceArea tmin tmax interval =
     \<lparr>ra_key = iv_id interval,
      x1 = clamp (timeRange_tMin interval) tmin tmax,
      x2 = clamp (timeRange_tMax interval) tmin tmax,
      y1 = 0,
      y2 = clamp (mitigationValue interval) 0 100,
      fill = iv_color interval,
      label_value = iv_name interval\<rparr>"

section \<open>The component\<close>

text \<open>What the component hands to the two charts.\<close>

record Chart =
  xDomain :: "int \<times> int"
  referenceAreas :: "ReferenceArea list"
  consolidatedPlotData :: "PlotDatum list"
  yDomain :: "real \<times> real option"

text \<open>
  \<open>DeterministicLinePlot\<close> up to the values it renders from: \<open>Inl\<close> is a thrown error,
  \<open>Inr None\<close> is \<open>return null\<close>.
\<close>

definition DeterministicLinePlot ::
  "(real \<times> real \<Rightarrow> real \<times> real \<Rightarrow> bool) \<Rightarrow> string list \<Rightarrow> LinePlotProps \<Rightarrow> error + Chart option" where
  "DeterministicLinePlot arrGt enabledPlots props =
     (case data props of
        None \<Rightarrow> Inr None
      | Some dat \<Rightarrow>
          (case plotData enabledPlots props dat of
             Inl e \<Rightarrow> Inl e
           | Inr unsorted \<Rightarrow>
               if length unsorted = 0 then Inr None
               else
                 (let pd = Array_sort compareFn unsorted;
                      cons = consolidate pd
                  in case tMin arrGt pd of
                       Inl e \<Rightarrow> Inl e
                     | Inr tmin \<Rightarrow>
                         (case tMax arrGt pd of
                            Inl e \<Rightarrow> Inl e
                          | Inr tmax \<Rightarrow>
                              Inr (Some
                                \<lparr>xDomain = (tmin, tmax),
                                 referenceAreas = map (referenceArea tmin tmax) (mitigationIntervals props),
                                 consolidatedPlotData = cons,
                                 yDomain = yAxisDomain (logScale props)
                                             (yDataMax arrGt enabledPlots cons)\<rparr>)))))"

text \<open>The \<open>onClick\<close> of the legend: \<open>splice(indexOf(k), 1)\<close> removes the first occurrence.\<close>

definition legendOnClick :: "string list \<Rightarrow> string \<Rightarrow> string list" where
  "legendOnClick enabledPlots dataKey =
     (if dataKey \<in> set enabledPlots then remove1 dataKey enabledPlots else enabledPlots @ [dataKey])"

text \<open>
  \<open>countObservations\<close>: how many filtered records carry each observed metric. The
  \<open>newCases\<close> count calls \<open>newCases\<close> at every index of the filtered array.
\<close>

record CountObservations =
  n_cases :: nat
  n_ICU :: nat
  n_observedDeaths :: nat
  n_newCases :: nat
  n_hospitalized :: nat

definition countObservations :: "EmpiricalDatum list option \<Rightarrow> error + CountObservations" where
  "countObservations cco =
     (case cco of
        None \<Rightarrow> Inr \<lparr>n_cases = 0, n_ICU = 0, n_observedDeaths = 0, n_newCases = 0, n_hospitalized = 0\<rparr>
      | Some cc \<Rightarrow>
          (let ne = nonEmptyCaseCounts cc
           in case collect (map (newCases ne) [0..<length ne]) of
                Inl e \<Rightarrow> Inl e
              | Inr ncs \<Rightarrow>
                  Inr \<lparr>n_cases = length (filter (\<lambda>d. truthy (cases d)) ne),
                       n_ICU = length (filter (\<lambda>d. truthy (icu d)) ne),
                       n_observedDeaths = length (filter (\<lambda>d. truthy (deaths d)) ne),
                       n_newCases = length (filter truthy ncs),
                       n_hospitalized = length (filter (\<lambda>d. truthy (hospitalized d)) ne)\<rparr>))"

section \<open>Reference notions and concrete inputs\<close>

text \<open>A record with the given timestamp, cases and deaths, and no hospital data.\<close>

definition datum :: "int \<Rightarrow> real option \<Rightarrow> real option \<Rightarrow> EmpiricalDatum" where
  "datum t c d = \<lparr>e_time = t, cases = c, deaths = d, icu = None, hospitalized = None\<rparr>"

text \<open>Four surviving records; the first reports zero cases and one death.\<close>

definition ccZero :: "EmpiricalDatum list" where
  "ccZero = [datum 0 (Some 0) (Some 1), datum 1 (Some 2) None, datum 2 (Some 3) None,
             datum 3 (Some 5) None]"

text \<open>Cases 10 at filtered index 0 and 50 at filtered index 3.\<close>

definition ccWindow :: "EmpiricalDatum list" where
  "ccWindow = [datum 0 (Some 10) None, datum 1 (Some 20) None, datum 2 (Some 30) None,
               datum 3 (Some 50) None]"

text \<open>Three records; the middle one has zero cases and zero deaths.\<close>

definition ccWithEmpty :: "EmpiricalDatum list" where
  "ccWithEmpty = [datum 0 (Some 4) None, datum 1 (Some 0) (Some 0), datum 2 (Some 6) None]"

text \<open>The compartment total that the computed metric with key \<open>k\<close> reads from a sample.\<close>

definition compartment :: "string \<Rightarrow> ExportedTimePoint \<Rightarrow> real" where
  "compartment k x =
     (if k = ''susceptible'' then susceptible (current x)
      else if k = ''infectious'' then infectious (current x)
      else if k = ''severe'' then severe (current x)
      else if k = ''critical'' then critical (current x)
      else if k = ''overflow'' then overflow (current x)
      else if k = ''recovered'' then recovered (cumulative x)
      else fatality (cumulative x))"

text \<open>A trajectory sample with the given time, susceptible and infectious totals.\<close>

definition sample :: "int \<Rightarrow> real \<Rightarrow> real \<Rightarrow> ExportedTimePoint" where
  "sample t s n =
     \<lparr>time = t,
      current = \<lparr>susceptible = s, infectious = n, severe = 0, critical = 0, overflow = 0\<rparr>,
      cumulative = \<lparr>recovered = 0, fatality = 0\<rparr>\<rparr>"

text \<open>Two samples; the mean of the second has a susceptible total that rounds to zero.\<close>

definition trSmall :: Trajectory where
  "trSmall =
     \<lparr>mean = [sample 0 100 20, sample 1 (1 / 5) 30],
      lower = [sample 0 90 10, sample 1 0 25],
      upper = [sample 0 110 (61 / 2), sample 1 3 35]\<rparr>"

text \<open>The numbers among a list of property values.\<close>

fun nums :: "jsval list \<Rightarrow> real list" where
  "nums [] = []"
| "nums (Num x # vs) = x # nums vs"
| "nums (_ # vs) = nums vs"

definition isArea :: "jsval \<Rightarrow> bool" where
  "isArea v = (case v of Area _ _ \<Rightarrow> True | _ \<Rightarrow> False)"

text \<open>
  The values that qualify for the value axis: the numbers that some point of the series
  holds under a key that is enabled and is not one of the two reference keys.
\<close>

definition qualifying :: "string list \<Rightarrow> PlotDatum list \<Rightarrow> real set" where
  "qualifying enabledPlots series =
     {v. \<exists>d \<in> set series. \<exists>k \<in> set enabledPlots.
           k \<noteq> ''hospitalBeds'' \<and> k \<noteq> ''ICUbeds'' \<and> getProp d k = Num v}"

text \<open>Two series agree except, possibly, for the values under the two reference keys.\<close>

definition sameButReference :: "PlotDatum list \<Rightarrow> PlotDatum list \<Rightarrow> bool" where
  "sameButReference s s' =
     list_all2 (\<lambda>d e. \<forall>k. k \<noteq> ''hospitalBeds'' \<and> k \<noteq> ''ICUbeds'' \<longrightarrow> getProp d k = getProp e k) s s'"

text \<open>A comparison of arrays for concrete runs; no run below compares two arrays.\<close>

definition arrGtNever :: "real \<times> real \<Rightarrow> real \<times> real \<Rightarrow> bool" where
  "arrGtNever a b = False"

text \<open>
  Susceptible 100 at time 0 and 90 at time 1, with a hospital-bed capacity of \<open>beds\<close> on
  both points.
\<close>

definition seriesA :: "real \<Rightarrow> PlotDatum list" where
  "seriesA beds =
     [\<lparr>p_time = 0, p_fields = map_of [(''susceptible'', Num 100), (''hospitalBeds'', Num beds)]\<rparr>,
      \<lparr>p_time = 1, p_fields = map_of [(''susceptible'', Num 90), (''hospitalBeds'', Num beds)]\<rparr>]"

text \<open>The usual clamp of \<open>x\<close> to the interval from \<open>lo\<close> to \<open>hi\<close>.\<close>

definition clip :: "'a::linorder \<Rightarrow> 'a \<Rightarrow> 'a \<Rightarrow> 'a" where
  "clip x lo hi = (if x < lo then lo else if hi < x then hi else x)"

text \<open>What the component computes from a non-empty \<open>plotData\<close>.\<close>

definition chartOf ::
  "(real \<times> real \<Rightarrow> real \<times> real \<Rightarrow> bool) \<Rightarrow> string list \<Rightarrow> LinePlotProps \<Rightarrow> PlotDatum list \<Rightarrow> Chart" where
  "chartOf g en props pd =
     \<lparr>xDomain = (Min (set (map p_time pd)), Max (set (map p_time pd))),
      referenceAreas =
        map (referenceArea (Min (set (map p_time pd))) (Max (set (map p_time pd))))
          (mitigationIntervals props),
      consolidatedPlotData = consolidate (Array_sort compareFn pd),
      yDomain = yAxisDomain (logScale props)
                  (yDataMax g en (consolidate (Array_sort compareFn pd)))\<rparr>"

text \<open>
  The merged series that the component renders from; empty when it renders nothing or
  throws.
\<close>

definition rendered ::
  "(real \<times> real \<Rightarrow> real \<times> real \<Rightarrow> bool) \<Rightarrow> string list \<Rightarrow> LinePlotProps \<Rightarrow> PlotDatum list" where
  "rendered g en props =
     (case DeterministicLinePlot g en props of
        Inr (Some chart) \<Rightarrow> consolidatedPlotData chart
      | _ \<Rightarrow> [])"

text \<open>The values that the points of a series hold under one key.\<close>

definition column :: "string \<Rightarrow> PlotDatum list \<Rightarrow> jsval list" where
  "column k series = map (\<lambda>d. getProp d k) series"

text \<open>
  A trajectory at times 0 and 1, observations at times 1 and 2, 5000 hospital beds, and one
  mitigation interval that starts before the data, ends at time 1 and has strength 120.
\<close>

definition propsA :: LinePlotProps where
  "propsA =
     \<lparr>data = Some \<lparr>trajectory =
         \<lparr>mean = [sample 0 100 20, sample 1 90 30],
          lower = [sample 0 90 10, sample 1 80 25],
          upper = [sample 0 110 30, sample 1 95 35]\<rparr>\<rparr>,
      population = \<lparr>hospitalBeds = 5000, ICUBeds = 0\<rparr>,
      mitigationIntervals =
        [\<lparr>iv_id = ''m1'', iv_name = ''Intervention'', iv_color = ''#bf5b17'',
          timeRange_tMin = - 5, timeRange_tMax = 1, mitigationValue = 120\<rparr>],
      logScale = False,
      caseCounts = Some [datum 1 (Some 7) None, datum 2 (Some 9) None]\<rparr>"

text \<open>
  An empty trajectory and two observation records of the same day: the first reports five
  cases and zero deaths, the second zero cases and one death.
\<close>

definition emptyData :: AlgorithmResult where
  "emptyData = \<lparr>trajectory = \<lparr>mean = [], lower = [], upper = []\<rparr>\<rparr>"

definition propsDup :: LinePlotProps where
  "propsDup =
     \<lparr>data = Some emptyData,
      population = \<lparr>hospitalBeds = 0, ICUBeds = 0\<rparr>,
      mitigationIntervals = [],
      logScale = False,
      caseCounts = Some [datum 5 (Some 5) (Some 0), datum 5 (Some 0) (Some 1)]\<rparr>"

text \<open>One trajectory sample, 100 hospital beds and no observations.\<close>

definition propsBeds :: LinePlotProps where
  "propsBeds =
     \<lparr>data = Some \<lparr>trajectory =
         \<lparr>mean = [sample 0 100 20], lower = [sample 0 90 10], upper = [sample 0 110 30]\<rparr>\<rparr>,
      population = \<lparr>hospitalBeds = 100, ICUBeds = 0\<rparr>,
      mitigationIntervals = [],
      logScale = False,
      caseCounts = None\<rparr>"

text \<open>An empty trajectory and the four observation records of \<open>ccWindow\<close>.\<close>

definition propsWindow :: LinePlotProps where
  "propsWindow =
     \<lparr>data = Some emptyData,
      population = \<lparr>hospitalBeds = 0, ICUBeds = 0\<rparr>,
      mitigationIntervals = [],
      logScale = False,
      caseCounts = Some ccWindow\<rparr>"

section \<open>Properties of the observation windower\<close>

lemma collect_total:
  "\<forall>x \<in> set xs. \<not> isl (f x) \<Longrightarrow> collect (map f xs) = Inr (map (\<lambda>x. projr (f x)) xs)"
  by (induction xs) (auto split: sum.splits)

lemma newCases_in_range: "i < length cc \<Longrightarrow> \<not> isl (newCases cc i)"
  by (simp add: newCases_def)

text \<open>
  Claim C3, as the code has it. Within the filtered sequence, \<open>newCases(cc, i)\<close> is defined
  exactly when \<open>i \<ge> 3\<close>, both \<open>cc[i].cases\<close> and \<open>cc[i-3].cases\<close> are defined and non-zero
  (truthy), and their difference is strictly positive; it then equals that difference, and
  in every other case it is \<open>undefined\<close>. It never throws for an index of the sequence.
\<close>

theorem newCases_window_delta:
  assumes "i < length cc"
  shows "((newCases cc i = Inr (Some v)) \<longleftrightarrow>
            (3 \<le> i \<and> (\<exists>a b. cases (cc ! i) = Some a \<and> cases (cc ! (i - 3)) = Some b \<and>
                            a \<noteq> 0 \<and> b \<noteq> 0 \<and> 0 < a - b \<and> v = a - b)))
         \<and> (newCases cc i = Inr None \<or> (\<exists>w. newCases cc i = Inr (Some w)))"
  using assms
  by (auto simp: newCases_def caseStep_def truthy_def verifyPositive_def split: option.splits)

theorem newCases_window_delta_witness:
  "(3::nat) < length ccWindow \<and> newCases ccWindow 3 = Inr (Some 40)"
proof -
  have len: "(3::nat) < length ccWindow"
    by (simp add: ccWindow_def)
  have "cases (ccWindow ! 3) = Some 50 \<and> cases (ccWindow ! (3 - 3)) = Some 10"
    by (simp add: ccWindow_def datum_def)
  then have "\<exists>a b. cases (ccWindow ! 3) = Some a \<and> cases (ccWindow ! (3 - 3)) = Some b \<and>
                a \<noteq> 0 \<and> b \<noteq> 0 \<and> 0 < a - b \<and> (40::real) = a - b"
    by simp
  with newCases_window_delta [OF len, of 40] len show ?thesis
    by simp
qed

text \<open>
  Claim C3 as stated fails: in \<open>ccZero\<close>, all of whose records survive the filter, both
  \<open>cc[3].cases = 5\<close> and \<open>cc[0].cases = 0\<close> are defined and their difference \<open>5\<close> is
  strictly positive, yet \<open>newCases(cc, 3)\<close> is \<open>undefined\<close>, because \<open>0\<close> is falsy.
\<close>

theorem newCases_defined_zero_counterexample:
  "nonEmptyCaseCounts ccZero = ccZero \<and> (3::nat) \<le> 3 \<and> cases (ccZero ! 3) = Some 5 \<and>
   cases (ccZero ! (3 - 3)) = Some 0 \<and> (0::real) < 5 - 0 \<and> newCases ccZero 3 = Inr None"
  by (simp add: ccZero_def datum_def nonEmptyCaseCounts_def truthy_def newCases_def caseStep_def)

lemma nonEmptyCaseCounts_drop:
  "\<not> truthy (cases d) \<Longrightarrow> \<not> truthy (deaths d) \<Longrightarrow> \<not> truthy (icu d) \<Longrightarrow> \<not> truthy (hospitalized d) \<Longrightarrow>
   nonEmptyCaseCounts (xs @ d # ys) = nonEmptyCaseCounts (xs @ ys)"
  by (simp add: nonEmptyCaseCounts_def)

lemma observation_in_range:
  "i < length cc \<Longrightarrow>
   \<exists>nc. newCases cc i = Inr nc \<and>
     observation en hb ib cc i =
       Inr \<lparr>p_time = e_time (cc ! i),
            p_fields = observationFields en hb ib (cc ! i) (if ''newCases'' \<in> set en then nc else None)\<rparr>"
proof -
  assume "i < length cc"
  then obtain nc where nc: "newCases cc i = Inr nc"
    using newCases_in_range [of i cc] by (cases "newCases cc i") auto
  then show ?thesis
    by (simp add: observation_def Let_def)
qed

lemma observations_Some:
  "observations en hb ib (Some cc) =
     Inr (map (\<lambda>i. projr (observation en hb ib (nonEmptyCaseCounts cc) i))
            [0..<length (nonEmptyCaseCounts cc)])"
proof -
  have "\<forall>i \<in> set [0..<length (nonEmptyCaseCounts cc)].
          \<not> isl (observation en hb ib (nonEmptyCaseCounts cc) i)"
  proof
    fix i assume "i \<in> set [0..<length (nonEmptyCaseCounts cc)]"
    then have "i < length (nonEmptyCaseCounts cc)" by simp
    from observation_in_range [OF this, of en hb ib]
    show "\<not> isl (observation en hb ib (nonEmptyCaseCounts cc) i)" by auto
  qed
  from collect_total [OF this] show ?thesis
    by (simp add: observations_def Let_def)
qed

text \<open>
  Claim C9. Every record that survives the filter has a truthy \<open>cases\<close>, \<open>deaths\<close>,
  \<open>icu\<close> or \<open>hospitalized\<close>. A record in which all four are falsy is dropped before
  the window is taken: it is not in the filtered sequence, and the observations and the
  counts are the same as if the record had never been in the input. The observations are one
  point per filtered record, in order, and the window delta of point \<open>i\<close> is \<open>newCases\<close>
  at index \<open>i\<close> of the filtered sequence.
\<close>

theorem empty_records_dropped:
  "(\<forall>r \<in> set (nonEmptyCaseCounts cc).
      truthy (cases r) \<or> truthy (deaths r) \<or> truthy (icu r) \<or> truthy (hospitalized r))
   \<and> (\<not> truthy (cases d) \<and> \<not> truthy (deaths d) \<and> \<not> truthy (icu d) \<and> \<not> truthy (hospitalized d) \<longrightarrow>
        d \<notin> set (nonEmptyCaseCounts cc)
        \<and> nonEmptyCaseCounts (xs @ d # ys) = nonEmptyCaseCounts (xs @ ys)
        \<and> observations en hb ib (Some (xs @ d # ys)) = observations en hb ib (Some (xs @ ys))
        \<and> countObservations (Some (xs @ d # ys)) = countObservations (Some (xs @ ys)))
   \<and> (\<exists>obs. observations en hb ib (Some cc) = Inr obs
        \<and> length obs = length (nonEmptyCaseCounts cc)
        \<and> (\<forall>i < length obs.
              p_time (obs ! i) = e_time (nonEmptyCaseCounts cc ! i)
              \<and> (\<exists>nc. newCases (nonEmptyCaseCounts cc) i = Inr nc
                    \<and> getProp (obs ! i) ''newCases'' =
                        (if ''newCases'' \<in> set en then optToJs nc else Undefined))))"
proof (intro conjI impI)
  show "\<forall>r \<in> set (nonEmptyCaseCounts cc).
      truthy (cases r) \<or> truthy (deaths r) \<or> truthy (icu r) \<or> truthy (hospitalized r)"
    by (simp add: nonEmptyCaseCounts_def)
next
  assume f: "\<not> truthy (cases d) \<and> \<not> truthy (deaths d) \<and> \<not> truthy (icu d) \<and> \<not> truthy (hospitalized d)"
  then show "d \<notin> set (nonEmptyCaseCounts cc)"
    by (simp add: nonEmptyCaseCounts_def)
  from f show eq: "nonEmptyCaseCounts (xs @ d # ys) = nonEmptyCaseCounts (xs @ ys)"
    by (simp add: nonEmptyCaseCounts_drop)
  show "observations en hb ib (Some (xs @ d # ys)) = observations en hb ib (Some (xs @ ys))"
    by (simp add: observations_def eq)
  show "countObservations (Some (xs @ d # ys)) = countObservations (Some (xs @ ys))"
    by (simp add: countObservations_def eq)
next
  let ?ne = "nonEmptyCaseCounts cc"
  let ?obs = "map (\<lambda>i. projr (observation en hb ib ?ne i)) [0..<length ?ne]"
  have "\<forall>i < length ?obs.
          p_time (?obs ! i) = e_time (?ne ! i)
          \<and> (\<exists>nc. newCases ?ne i = Inr nc
                \<and> getProp (?obs ! i) ''newCases'' =
                    (if ''newCases'' \<in> set en then optToJs nc else Undefined))"
  proof (intro allI impI)
    fix i assume "i < length ?obs"
    then have i: "i < length ?ne" by simp
    from observation_in_range [OF i, of en hb ib] obtain nc where
      nc: "newCases ?ne i = Inr nc" and
      ob: "p_time (projr (observation en hb ib ?ne i)) = e_time (?ne ! i)"
          "getProp (projr (observation en hb ib ?ne i)) ''newCases'' =
             (if ''newCases'' \<in> set en then optToJs nc else Undefined)"
      by (auto simp: getProp_def observationFields_def optToJs_def)
    with i show "p_time (?obs ! i) = e_time (?ne ! i)
          \<and> (\<exists>nc. newCases ?ne i = Inr nc
                \<and> getProp (?obs ! i) ''newCases'' =
                    (if ''newCases'' \<in> set en then optToJs nc else Undefined))"
      by simp
  qed
  then show "\<exists>obs. observations en hb ib (Some cc) = Inr obs
        \<and> length obs = length ?ne
        \<and> (\<forall>i < length obs.
              p_time (obs ! i) = e_time (?ne ! i)
              \<and> (\<exists>nc. newCases ?ne i = Inr nc
                    \<and> getProp (obs ! i) ''newCases'' =
                        (if ''newCases'' \<in> set en then optToJs nc else Undefined)))"
    unfolding observations_Some by (intro exI [of _ ?obs]) simp
qed

theorem empty_records_dropped_witness:
  "nonEmptyCaseCounts ccWithEmpty = [datum 0 (Some 4) None, datum 2 (Some 6) None]
   \<and> observations DATA_POINTS_values None None (Some ccWithEmpty) =
       observations DATA_POINTS_values None None (Some [datum 0 (Some 4) None, datum 2 (Some 6) None])
   \<and> datum 1 (Some 0) (Some 0) \<notin> set (nonEmptyCaseCounts ccWithEmpty)"
proof -
  have f: "\<not> truthy (cases (datum 1 (Some 0) (Some 0))) \<and> \<not> truthy (deaths (datum 1 (Some 0) (Some 0))) \<and>
           \<not> truthy (icu (datum 1 (Some 0) (Some 0))) \<and> \<not> truthy (hospitalized (datum 1 (Some 0) (Some 0)))"
    by (simp add: datum_def truthy_def)
  have k: "nonEmptyCaseCounts [datum 0 (Some 4) None, datum 2 (Some 6) None] =
             [datum 0 (Some 4) None, datum 2 (Some 6) None]"
    by (simp add: nonEmptyCaseCounts_def datum_def truthy_def)
  note t = empty_records_dropped [of ccWithEmpty "datum 1 (Some 0) (Some 0)" "[datum 0 (Some 4) None]"
      "[datum 2 (Some 6) None]" DATA_POINTS_values None None]
  note r = t [THEN conjunct2, THEN conjunct1, THEN mp, OF f]
  from r [THEN conjunct1]
  have a: "datum 1 (Some 0) (Some 0) \<notin> set (nonEmptyCaseCounts ccWithEmpty)" .
  from r [THEN conjunct2, THEN conjunct1]
  have b: "nonEmptyCaseCounts ccWithEmpty = nonEmptyCaseCounts [datum 0 (Some 4) None, datum 2 (Some 6) None]"
    by (simp add: ccWithEmpty_def)
  from r [THEN conjunct2, THEN conjunct2, THEN conjunct1]
  have c: "observations DATA_POINTS_values None None (Some ccWithEmpty) =
       observations DATA_POINTS_values None None (Some [datum 0 (Some 4) None, datum 2 (Some 6) None])"
    by (simp add: ccWithEmpty_def)
  from a b c k show ?thesis
    by simp
qed

section \<open>Properties of the trajectory normalizer\<close>

lemma collect_Inr:
  "collect rs = Inr vs \<Longrightarrow> length vs = length rs \<and> (\<forall>i < length rs. rs ! i = Inr (vs ! i))"
proof (induction rs arbitrary: vs)
  case Nil
  then show ?case by simp
next
  case (Cons r rs)
  then obtain v vs' where r: "r = Inr v" and c: "collect rs = Inr vs'" and vs: "vs = v # vs'"
    by (auto split: sum.splits)
  from Cons.IH [OF c] have "length vs' = length rs" and "\<forall>i < length rs. rs ! i = Inr (vs' ! i)"
    by simp_all
  with r vs show ?case
    by (auto simp: nth_Cons split: nat.splits)
qed

lemma Math_round_nearest:
  "\<exists>n::int. Math_round v = of_int n \<and> \<bar>v - of_int n\<bar> \<le> 1 / 2"
proof -
  have "of_int \<lfloor>v + 1 / 2\<rfloor> \<le> v + 1 / 2" and "v + 1 / 2 < of_int \<lfloor>v + 1 / 2\<rfloor> + 1"
    by linarith+
  then have "\<bar>v - of_int \<lfloor>v + 1 / 2\<rfloor>\<bar> \<le> 1 / 2"
    by linarith
  then show ?thesis
    unfolding Math_round_def by blast
qed

lemma plotDatum_Inr:
  assumes "plotDatum en hb ib lo up x i = Inr p"
  shows "p = \<lparr>p_time = time x, p_fields = plotFields en hb ib lo up x i\<rparr>
         \<and> ((\<exists>k \<in> set computedKeys. k \<in> set en) \<longrightarrow> i < length lo \<and> i < length up)"
proof -
  define G where "G \<longleftrightarrow> (\<exists>k \<in> set computedKeys. k \<in> set en) \<and> \<not> (i < length lo \<and> i < length up)"
  from assms have e: "(if G then Inl TypeError
      else Inr \<lparr>p_time = time x, p_fields = plotFields en hb ib lo up x i\<rparr>) = Inr p"
    unfolding plotDatum_def G_def .
  show ?thesis
  proof (cases G)
    case True
    with e show ?thesis by simp
  next
    case False
    with e have "p = \<lparr>p_time = time x, p_fields = plotFields en hb ib lo up x i\<rparr>"
      by simp
    with False show ?thesis unfolding G_def by blast
  qed
qed

lemma plotDatum_in_range:
  "i < length lo \<Longrightarrow> i < length up \<Longrightarrow>
   plotDatum en hb ib lo up x i = Inr \<lparr>p_time = time x, p_fields = plotFields en hb ib lo up x i\<rparr>"
  by (simp add: plotDatum_def)

lemma computedKeys_cases:
  assumes "k \<in> set computedKeys"
  shows "k = ''susceptible'' \<or> k = ''infectious'' \<or> k = ''severe'' \<or> k = ''critical'' \<or>
         k = ''overflow'' \<or> k = ''recovered'' \<or> k = ''fatality''"
  using assms by (simp add: computedKeys_def)

lemma plotFields_value:
  assumes "k \<in> set computedKeys"
  shows "plotFields en hb ib lo up x i k =
           Some (if k \<in> set en then roundOrUndefined (compartment k x) else Undefined)"
  using computedKeys_cases [OF assms]
  by (elim disjE) (simp_all add: plotFields_def compartment_def)

lemma plotFields_area:
  assumes "k \<in> set computedKeys"
  shows "plotFields en hb ib lo up x i (k @ ''_area'') =
           Some (if k \<in> set en then area lo up i (compartment k) else Undefined)"
  using computedKeys_cases [OF assms]
  by (elim disjE) (simp_all add: plotFields_def compartment_def area_def)

lemma trajectoryData_nth:
  assumes "trajectoryData en hb ib tr = Inr pts" and "i < length (mean tr)"
  shows "length pts = length (mean tr)"
    and "pts ! i = \<lparr>p_time = time (mean tr ! i),
                    p_fields = plotFields en hb ib (lower tr) (upper tr) (mean tr ! i) i\<rparr>"
    and "(\<exists>k \<in> set computedKeys. k \<in> set en) \<Longrightarrow> i < length (lower tr) \<and> i < length (upper tr)"
proof -
  let ?rs = "map (\<lambda>i. plotDatum en hb ib (lower tr) (upper tr) (mean tr ! i) i) [0..<length (mean tr)]"
  from assms(1) have c: "collect ?rs = Inr pts"
    by (simp add: trajectoryData_def)
  from collect_Inr [OF c] have len: "length pts = length ?rs"
    and nth: "\<forall>i < length ?rs. ?rs ! i = Inr (pts ! i)"
    by simp_all
  from len show "length pts = length (mean tr)" by simp
  from nth assms(2) have "plotDatum en hb ib (lower tr) (upper tr) (mean tr ! i) i = Inr (pts ! i)"
    by simp
  note p = plotDatum_Inr [OF this]
  from p show "pts ! i = \<lparr>p_time = time (mean tr ! i),
                    p_fields = plotFields en hb ib (lower tr) (upper tr) (mean tr ! i) i\<rparr>"
    by blast
  assume "\<exists>k \<in> set computedKeys. k \<in> set en"
  with p show "i < length (lower tr) \<and> i < length (upper tr)" by blast
qed

text \<open>
  Claim C5. For every index \<open>i\<close> of the mean trajectory and every computed metric \<open>k\<close>,
  the point built at \<open>i\<close> carries the compartment total of \<open>mean[i]\<close> rounded to the
  nearest integer if and only if the metric is enabled and the rounded value is non-zero;
  a rounded value of zero, and a disabled metric, leave the field \<open>undefined\<close>.
\<close>

theorem normalizer_point_value:
  assumes "trajectoryData enabledPlots hb ib tr = Inr pts"
    and "i < length (mean tr)"
    and "k \<in> set computedKeys"
  shows "length pts = length (mean tr)
         \<and> p_time (pts ! i) = time (mean tr ! i)
         \<and> getProp (pts ! i) k =
             (if k \<in> set enabledPlots \<and> Math_round (compartment k (mean tr ! i)) \<noteq> 0
              then Num (Math_round (compartment k (mean tr ! i))) else Undefined)
         \<and> (\<exists>n::int. Math_round (compartment k (mean tr ! i)) = of_int n
                \<and> \<bar>compartment k (mean tr ! i) - of_int n\<bar> \<le> 1 / 2)"
proof -
  note t = trajectoryData_nth [OF assms(1,2)]
  from assms(3) have "k \<noteq> ''time''"
    by (auto simp: computedKeys_def)
  then have "getProp (pts ! i) k =
             (if k \<in> set enabledPlots \<and> Math_round (compartment k (mean tr ! i)) \<noteq> 0
              then Num (Math_round (compartment k (mean tr ! i))) else Undefined)"
    by (simp add: t(2) getProp_def plotFields_value [OF assms(3)] roundOrUndefined_def)
  with t(1) t(2) Math_round_nearest show ?thesis
    by simp
qed

text \<open>
  Claim C6, as the code has it. For every index \<open>i\<close> and every computed metric \<open>k\<close>, the
  band \<open>[round(lower[i].k), round(upper[i].k)]\<close> is stored under the key \<open>k_area\<close> if and
  only if the metric is enabled, whatever the rounded mean value is; a disabled metric has
  no band.
\<close>

theorem normalizer_band:
  assumes "trajectoryData enabledPlots hb ib tr = Inr pts"
    and "i < length (mean tr)"
    and "k \<in> set computedKeys"
  shows "getProp (pts ! i) (k @ ''_area'') =
           (if k \<in> set enabledPlots
            then Area (Math_round (compartment k (lower tr ! i))) (Math_round (compartment k (upper tr ! i)))
            else Undefined)
         \<and> (k \<in> set enabledPlots \<longrightarrow> i < length (lower tr) \<and> i < length (upper tr))"
proof -
  note t = trajectoryData_nth [OF assms(1,2)]
  have "k @ ''_area'' \<noteq> ''time''"
    using computedKeys_cases [OF assms(3)] by auto
  then have "getProp (pts ! i) (k @ ''_area'') =
           (if k \<in> set enabledPlots
            then Area (Math_round (compartment k (lower tr ! i))) (Math_round (compartment k (upper tr ! i)))
            else Undefined)"
    by (simp add: t(2) getProp_def plotFields_area [OF assms(3)] area_def)
  moreover have "k \<in> set enabledPlots \<longrightarrow> i < length (lower tr) \<and> i < length (upper tr)"
    using t(3) assms(3) by blast
  ultimately show ?thesis by simp
qed

text \<open>
  Claim C10. When \<open>lower\<close> and \<open>upper\<close> are as long as \<open>mean\<close>, every index of \<open>mean\<close> is
  an index of both, the callback fails at no index, and the mapped trajectory is one point
  per sample, for every enabled set.
\<close>

lemma trajectoryData_total:
  assumes "length (lower tr) = length (mean tr)" and "length (upper tr) = length (mean tr)"
  shows "\<exists>pts. trajectoryData en hb ib tr = Inr pts \<and> length pts = length (mean tr)"
proof -
  have "\<forall>i \<in> set [0..<length (mean tr)].
               \<not> isl (plotDatum en hb ib (lower tr) (upper tr) (mean tr ! i) i)"
    using assms by (simp add: plotDatum_in_range)
  from collect_total [OF this] show ?thesis
    by (simp add: trajectoryData_def)
qed

theorem normalizer_total:
  assumes "length (lower tr) = length (mean tr)" and "length (upper tr) = length (mean tr)"
  shows "(\<forall>i < length (mean tr).
            i < length (lower tr) \<and> i < length (upper tr)
            \<and> \<not> isl (plotDatum enabledPlots hb ib (lower tr) (upper tr) (mean tr ! i) i))
         \<and> (\<exists>pts. trajectoryData enabledPlots hb ib tr = Inr pts \<and> length pts = length (mean tr))"
proof -
  have a: "\<forall>i < length (mean tr).
            i < length (lower tr) \<and> i < length (upper tr)
            \<and> \<not> isl (plotDatum enabledPlots hb ib (lower tr) (upper tr) (mean tr ! i) i)"
    using assms by (simp add: plotDatum_in_range)
  then have "\<forall>i \<in> set [0..<length (mean tr)].
               \<not> isl (plotDatum enabledPlots hb ib (lower tr) (upper tr) (mean tr ! i) i)"
    by simp
  from collect_total [OF this]
  have "\<exists>pts. trajectoryData enabledPlots hb ib tr = Inr pts \<and> length pts = length (mean tr)"
    by (simp add: trajectoryData_def)
  with a show ?thesis by blast
qed

lemma trSmall_data:
  "trajectoryData en hb ib trSmall =
     Inr [\<lparr>p_time = 0, p_fields = plotFields en hb ib (lower trSmall) (upper trSmall) (sample 0 100 20) 0\<rparr>,
          \<lparr>p_time = 1, p_fields = plotFields en hb ib (lower trSmall) (upper trSmall) (sample 1 (1 / 5) 30) 1\<rparr>]"
  by (simp add: trajectoryData_def plotDatum_in_range trSmall_def sample_def)

theorem normalizer_point_value_witness:
  "getProp (projr (trajectoryData DATA_POINTS_values None None trSmall) ! 0) ''susceptible'' = Num 100
   \<and> getProp (projr (trajectoryData DATA_POINTS_values None None trSmall) ! 1) ''susceptible'' = Undefined
   \<and> getProp (projr (trajectoryData DATA_POINTS_values None None trSmall) ! 1) ''infectious'' = Num 30"
proof -
  obtain pts where e: "trajectoryData DATA_POINTS_values None None trSmall = Inr pts"
    by (simp add: trSmall_data)
  have l: "0 < length (mean trSmall)" "1 < length (mean trSmall)"
    by (simp_all add: trSmall_def)
  have k: "''susceptible'' \<in> set computedKeys" "''infectious'' \<in> set computedKeys"
    by (simp_all add: computedKeys_def)
  have r: "Math_round 100 = 100" "Math_round (1 / 5) = 0" "Math_round 30 = 30"
    by (simp_all add: Math_round_def)
  have "getProp (pts ! 0) ''susceptible'' = Num 100"
    using normalizer_point_value [OF e l(1) k(1)]
    by (simp add: DATA_POINTS_values_def compartment_def trSmall_def sample_def r)
  moreover have "getProp (pts ! 1) ''susceptible'' = Undefined"
    using normalizer_point_value [OF e l(2) k(1)]
    by (simp add: DATA_POINTS_values_def compartment_def trSmall_def sample_def r)
  moreover have "getProp (pts ! 1) ''infectious'' = Num 30"
    using normalizer_point_value [OF e l(2) k(2)]
    by (simp add: DATA_POINTS_values_def compartment_def trSmall_def sample_def r)
  ultimately show ?thesis
    by (simp add: e)
qed

theorem normalizer_band_witness:
  "getProp (projr (trajectoryData DATA_POINTS_values None None trSmall) ! 0) ''infectious_area'' = Area 10 31
   \<and> getProp (projr (trajectoryData [''susceptible''] None None trSmall) ! 0) ''infectious_area'' = Undefined"
proof -
  obtain pts where e: "trajectoryData DATA_POINTS_values None None trSmall = Inr pts"
    by (simp add: trSmall_data)
  obtain qts where f: "trajectoryData [''susceptible''] None None trSmall = Inr qts"
    by (simp add: trSmall_data)
  have l: "0 < length (mean trSmall)"
    by (simp add: trSmall_def)
  have k: "''infectious'' \<in> set computedKeys"
    by (simp add: computedKeys_def)
  have r: "Math_round 10 = 10" "Math_round (61 / 2) = 31"
    by (simp_all add: Math_round_def)
  have "getProp (pts ! 0) (''infectious'' @ ''_area'') = Area 10 31"
    using normalizer_band [OF e l k]
    by (simp add: DATA_POINTS_values_def compartment_def trSmall_def sample_def r)
  moreover have "getProp (qts ! 0) (''infectious'' @ ''_area'') = Undefined"
    using normalizer_band [OF f l k]
    by simp
  ultimately show ?thesis
    by (simp add: e f)
qed

text \<open>
  Claim C6 as stated fails: at index 1 of \<open>trSmall\<close> the susceptible mean \<open>0.2\<close> rounds to
  zero, so the enabled metric stores no point value, and yet its band \<open>[0, 3]\<close> is stored.
\<close>

theorem band_with_zero_mean_counterexample:
  "''susceptible'' \<in> set DATA_POINTS_values
   \<and> Math_round (susceptible (current (mean trSmall ! 1))) = 0
   \<and> getProp (projr (trajectoryData DATA_POINTS_values None None trSmall) ! 1) ''susceptible'' = Undefined
   \<and> getProp (projr (trajectoryData DATA_POINTS_values None None trSmall) ! 1) ''susceptible_area'' = Area 0 3"
proof -
  have r: "Math_round (1 / 5) = 0" "Math_round 0 = 0" "Math_round 3 = 3"
    by (simp_all add: Math_round_def)
  have d: "projr (trajectoryData DATA_POINTS_values None None trSmall) ! 1 =
             \<lparr>p_time = 1,
              p_fields = plotFields DATA_POINTS_values None None (lower trSmall) (upper trSmall)
                           (sample 1 (1 / 5) 30) 1\<rparr>"
    by (simp add: trSmall_data)
  show ?thesis
    unfolding d
    by (simp add: getProp_def plotFields_def DATA_POINTS_values_def roundOrUndefined_def
        area_def trSmall_def sample_def r)
qed

theorem normalizer_total_witness:
  "length (lower trSmall) = length (mean trSmall) \<and> length (upper trSmall) = length (mean trSmall)
   \<and> \<not> isl (trajectoryData DATA_POINTS_values None None trSmall)
   \<and> length (projr (trajectoryData DATA_POINTS_values None None trSmall)) = 2"
proof -
  have a: "length (lower trSmall) = length (mean trSmall)"
    and b: "length (upper trSmall) = length (mean trSmall)"
    by (simp_all add: trSmall_def)
  from normalizer_total [OF a b, of DATA_POINTS_values None None]
  obtain pts where "trajectoryData DATA_POINTS_values None None trSmall = Inr pts"
    and "length pts = length (mean trSmall)"
    by blast
  with a b show ?thesis
    by (simp add: trSmall_def)
qed

section \<open>Properties of sorting and consolidation\<close>

lemma mset_insertBy: "mset (insertBy cmp x xs) = add_mset x (mset xs)"
  by (induction xs) auto

lemma mset_Array_sort: "mset (Array_sort cmp xs) = mset xs"
  unfolding Array_sort_def by (induction xs) (auto simp: mset_insertBy)

lemma set_Array_sort: "set (Array_sort cmp xs) = set xs"
  using mset_Array_sort [of cmp xs] by (metis set_mset_mset)

lemma length_Array_sort: "length (Array_sort cmp xs) = length xs"
  using mset_Array_sort [of cmp xs] by (metis size_mset)

lemma set_insertBy: "set (insertBy cmp x xs) = insert x (set xs)"
  using mset_insertBy [of cmp x xs] by (metis set_mset_add_mset_insert set_mset_mset)

lemma sorted_insertBy:
  "sorted (map p_time xs) \<Longrightarrow> sorted (map p_time (insertBy compareFn x xs))"
  by (induction xs) (auto simp: compareFn_def set_insertBy split: if_splits)

lemma sorted_Array_sort: "sorted (map p_time (Array_sort compareFn xs))"
  unfolding Array_sort_def by (induction xs) (auto simp: sorted_insertBy)

lemma strict_sorted_le_last:
  fixes ts :: "int list"
  shows "sorted_wrt (<) ts \<Longrightarrow> t \<in> set ts \<Longrightarrow> t \<le> last ts"
proof (induction ts)
  case Nil
  then show ?case by simp
next
  case (Cons a ts)
  show ?case
  proof (cases "ts = []")
    case True
    with Cons.prems show ?thesis by simp
  next
    case False
    then have "last ts \<in> set ts" by simp
    with Cons.prems(1) have "a \<le> last ts" by fastforce
    moreover from Cons have "t \<in> set ts \<Longrightarrow> t \<le> last ts" by simp
    ultimately show ?thesis using Cons.prems(2) False by auto
  qed
qed

lemma times_consolidateStep:
  assumes "acc \<noteq> []"
  shows "map p_time (consolidateStep acc d) =
           (if p_time d = p_time (last acc) then map p_time acc else map p_time acc @ [p_time d])"
proof (cases "p_time d = p_time (last acc)")
  case True
  have "map p_time (butlast acc @ [spread (last acc) d]) = map p_time (butlast acc @ [last acc])"
    by (simp add: spread_def True)
  with assms True show ?thesis
    by (simp add: consolidateStep_def del: map_append)
next
  case False
  then show ?thesis by (simp add: consolidateStep_def)
qed

lemma consolidateStep_nonempty: "consolidateStep acc d \<noteq> []"
  by (simp add: consolidateStep_def)

lemma last_consolidateStep: "p_time (last (consolidateStep acc d)) = p_time d"
  by (simp add: consolidateStep_def spread_def)

lemma times_fold_consolidate:
  assumes "acc \<noteq> []"
    and "sorted_wrt (<) (map p_time acc)"
    and "sorted (map p_time ys)"
    and "\<forall>y \<in> set ys. p_time (last acc) \<le> p_time y"
  shows "sorted_wrt (<) (map p_time (foldl consolidateStep acc ys))
         \<and> set (map p_time (foldl consolidateStep acc ys)) = set (map p_time acc) \<union> set (map p_time ys)"
  using assms
proof (induction ys arbitrary: acc)
  case Nil
  then show ?case by simp
next
  case (Cons y ys)
  let ?acc = "consolidateStep acc y"
  have ne: "?acc \<noteq> []" by (rule consolidateStep_nonempty)
  have ly: "p_time (last acc) \<le> p_time y" using Cons.prems(4) by simp
  have below: "\<forall>t \<in> set (map p_time acc). t \<le> p_time (last acc)"
    using strict_sorted_le_last [OF Cons.prems(2)] Cons.prems(1) by (simp add: last_map)
  have st: "sorted_wrt (<) (map p_time ?acc)"
  proof (cases "p_time y = p_time (last acc)")
    case True
    with Cons.prems(1,2) show ?thesis by (simp add: times_consolidateStep)
  next
    case False
    with ly have "p_time (last acc) < p_time y" by simp
    with below have "\<forall>t \<in> set (map p_time acc). t < p_time y" by fastforce
    with Cons.prems(1,2) False show ?thesis
      by (simp add: times_consolidateStep sorted_wrt_append)
  qed
  have so: "sorted (map p_time ys)" using Cons.prems(3) by simp
  have le: "\<forall>z \<in> set ys. p_time (last ?acc) \<le> p_time z"
    using Cons.prems(3) by (simp add: last_consolidateStep)
  have se: "set (map p_time ?acc) = insert (p_time y) (set (map p_time acc))"
  proof (cases "p_time y = p_time (last acc)")
    case True
    with Cons.prems(1) have "p_time y \<in> set (map p_time acc)" by simp
    with True Cons.prems(1) show ?thesis by (auto simp: times_consolidateStep)
  next
    case False
    with Cons.prems(1) show ?thesis by (simp add: times_consolidateStep)
  qed
  from Cons.IH [OF ne st so le] se show ?case by auto
qed

lemma times_consolidate:
  assumes "xs \<noteq> []" and "sorted (map p_time xs)"
  shows "sorted_wrt (<) (map p_time (consolidate xs))
         \<and> set (map p_time (consolidate xs)) = set (map p_time xs)"
proof -
  from assms obtain x rest where xs: "xs = x # rest" by (cases xs) auto
  with assms(2) have "\<forall>y \<in> set xs. p_time (last [hd xs]) \<le> p_time y" by auto
  from times_fold_consolidate [OF _ _ assms(2) this] xs show ?thesis
    by (auto simp: consolidate_def)
qed

lemma consolidate_nonempty: "consolidate xs \<noteq> []"
proof -
  have "acc \<noteq> [] \<Longrightarrow> foldl consolidateStep acc ys \<noteq> []" for acc ys
    by (induction ys arbitrary: acc) (simp_all add: consolidateStep_nonempty)
  then show ?thesis by (simp add: consolidate_def)
qed

lemma fold_consolidate_pred:
  assumes "\<And>a d. P a \<Longrightarrow> P d \<Longrightarrow> P (spread a d)"
    and "acc \<noteq> []"
    and "\<forall>a \<in> set acc. P a"
    and "\<forall>d \<in> set ys. P d"
  shows "\<forall>r \<in> set (foldl consolidateStep acc ys). P r"
  using assms(2-)
proof (induction ys arbitrary: acc)
  case Nil
  then show ?case by simp
next
  case (Cons y ys)
  have "\<forall>a \<in> set (consolidateStep acc y). P a"
  proof (cases "p_time y = p_time (last acc)")
    case True
    from Cons.prems have "P (last acc)" "P y" by simp_all
    then have "P (spread (last acc) y)" by (rule assms(1))
    moreover from Cons.prems have "\<forall>a \<in> set (butlast acc). P a"
      by (auto dest: in_set_butlastD)
    ultimately show ?thesis using True by (simp add: consolidateStep_def)
  next
    case False
    with Cons.prems show ?thesis by (simp add: consolidateStep_def)
  qed
  from Cons.IH [OF consolidateStep_nonempty this] Cons.prems show ?case by simp
qed

lemma consolidate_pred:
  assumes "\<And>a d. P a \<Longrightarrow> P d \<Longrightarrow> P (spread a d)" and "xs \<noteq> []" and "\<forall>d \<in> set xs. P d"
  shows "\<forall>r \<in> set (consolidate xs). P r"
proof -
  from assms(2,3) have "\<forall>a \<in> set [hd xs]. P a" by simp
  from fold_consolidate_pred [of P, OF assms(1) _ this assms(3)] show ?thesis
    by (simp add: consolidate_def)
qed

lemma map_add_self: "m ++ m = m"
  by (rule ext) (simp add: map_add_def split: option.split)

lemma consolidate_pair:
  assumes "p_time a = p_time d"
  shows "consolidate [a, d] = [spread a d]"
  using assms by (simp add: consolidate_def consolidateStep_def spread_def map_add_self)

section \<open>Properties of the domains\<close>

lemma set_nums: "set (nums vs) = {x. Num x \<in> set vs}"
  by (induction vs rule: nums.induct) auto

lemma fold_time_min:
  "\<exists>r'. foldl (extremumStep (\<lambda>d. getProp d ''time'') (baseLt g)) (Some (r, getProp r ''time'')) xs
           = Some (r', getProp r' ''time'')
        \<and> p_time r' = fold min (map p_time xs) (p_time r)"
proof (induction xs arbitrary: r)
  case Nil
  then show ?case by simp
next
  case (Cons y ys)
  show ?case
  proof (cases "p_time y < p_time r")
    case True
    then have "extremumStep (\<lambda>d. getProp d ''time'') (baseLt g) (Some (r, getProp r ''time'')) y
                 = Some (y, getProp y ''time'')"
      by (simp add: extremumStep_def getProp_def baseLt_def)
    moreover from True have "min (p_time y) (p_time r) = p_time y" by simp
    ultimately show ?thesis using Cons.IH [of y] by simp
  next
    case False
    then have "extremumStep (\<lambda>d. getProp d ''time'') (baseLt g) (Some (r, getProp r ''time'')) y
                 = Some (r, getProp r ''time'')"
      by (simp add: extremumStep_def getProp_def baseLt_def)
    moreover from False have "min (p_time y) (p_time r) = p_time r" by simp
    ultimately show ?thesis using Cons.IH [of r] by simp
  qed
qed

lemma fold_time_max:
  "\<exists>r'. foldl (extremumStep (\<lambda>d. getProp d ''time'') (baseGt g)) (Some (r, getProp r ''time'')) xs
           = Some (r', getProp r' ''time'')
        \<and> p_time r' = fold max (map p_time xs) (p_time r)"
proof (induction xs arbitrary: r)
  case Nil
  then show ?case by simp
next
  case (Cons y ys)
  show ?case
  proof (cases "p_time r < p_time y")
    case True
    then have "extremumStep (\<lambda>d. getProp d ''time'') (baseGt g) (Some (r, getProp r ''time'')) y
                 = Some (y, getProp y ''time'')"
      by (simp add: extremumStep_def getProp_def)
    moreover from True have "max (p_time y) (p_time r) = p_time y" by simp
    ultimately show ?thesis using Cons.IH [of y] by simp
  next
    case False
    then have "extremumStep (\<lambda>d. getProp d ''time'') (baseGt g) (Some (r, getProp r ''time'')) y
                 = Some (r, getProp r ''time'')"
      by (simp add: extremumStep_def getProp_def)
    moreover from False have "max (p_time y) (p_time r) = p_time r" by simp
    ultimately show ?thesis using Cons.IH [of r] by simp
  qed
qed

lemma tMin_Min:
  assumes "pd \<noteq> []"
  shows "tMin g pd = Inr (Min (set (map p_time pd)))"
proof -
  from assms obtain x xs where pd: "pd = x # xs" by (cases pd) auto
  have s: "extremumStep (\<lambda>d. getProp d ''time'') (baseLt g) None x = Some (x, getProp x ''time'')"
    by (simp add: extremumStep_def getProp_def)
  from fold_time_min [of g x xs] obtain r' where
    "foldl (extremumStep (\<lambda>d. getProp d ''time'') (baseLt g)) (Some (x, getProp x ''time'')) xs
       = Some (r', getProp r' ''time'')"
    and "p_time r' = fold min (map p_time xs) (p_time x)"
    by blast
  moreover have "Min (insert (p_time x) (p_time ` set xs)) = fold min (map p_time xs) (p_time x)"
    using Min.set_eq_fold [of "p_time x" "map p_time xs"] by simp
  ultimately show ?thesis
    by (simp add: tMin_def baseExtremum_def pd s)
qed

lemma tMax_Max:
  assumes "pd \<noteq> []"
  shows "tMax g pd = Inr (Max (set (map p_time pd)))"
proof -
  from assms obtain x xs where pd: "pd = x # xs" by (cases pd) auto
  have s: "extremumStep (\<lambda>d. getProp d ''time'') (baseGt g) None x = Some (x, getProp x ''time'')"
    by (simp add: extremumStep_def getProp_def)
  from fold_time_max [of g x xs] obtain r' where
    "foldl (extremumStep (\<lambda>d. getProp d ''time'') (baseGt g)) (Some (x, getProp x ''time'')) xs
       = Some (r', getProp r' ''time'')"
    and "p_time r' = fold max (map p_time xs) (p_time x)"
    by blast
  moreover have "Max (insert (p_time x) (p_time ` set xs)) = fold max (map p_time xs) (p_time x)"
    using Max.set_eq_fold [of "p_time x" "map p_time xs"] by simp
  ultimately show ?thesis
    by (simp add: tMax_def baseExtremum_def pd s)
qed

lemma fold_max_from:
  assumes "\<forall>v \<in> set vs. \<not> isArea v"
  shows "foldl (extremumStep (\<lambda>v. v) (baseGt g)) (Some (Num m, Num m)) vs
           = Some (Num (fold max (nums vs) m), Num (fold max (nums vs) m))"
  using assms
proof (induction vs arbitrary: m)
  case Nil
  then show ?case by simp
next
  case (Cons v vs)
  from Cons.prems have rest: "\<forall>v \<in> set vs. \<not> isArea v" and v: "\<not> isArea v" by simp_all
  show ?case
  proof (cases v)
    case Undefined
    then show ?thesis using Cons.IH [OF rest, of m] by (simp add: extremumStep_def)
  next
    case (Num x)
    show ?thesis
    proof (cases "m < x")
      case True
      then have "max x m = x" by simp
      with True Num show ?thesis using Cons.IH [OF rest, of x] by (simp add: extremumStep_def)
    next
      case False
      then have "max x m = m" by simp
      with False Num show ?thesis using Cons.IH [OF rest, of m] by (simp add: extremumStep_def)
    qed
  next
    case (Area a b)
    with v show ?thesis by (simp add: isArea_def)
  qed
qed

lemma fold_max_None:
  assumes "\<forall>v \<in> set vs. \<not> isArea v"
  shows "foldl (extremumStep (\<lambda>v. v) (baseGt g)) None vs
           = (if nums vs = [] then None
              else Some (Num (Max (set (nums vs))), Num (Max (set (nums vs)))))"
  using assms
proof (induction vs)
  case Nil
  then show ?case by simp
next
  case (Cons v vs)
  from Cons.prems have rest: "\<forall>v \<in> set vs. \<not> isArea v" and v: "\<not> isArea v" by simp_all
  show ?case
  proof (cases v)
    case Undefined
    then show ?thesis using Cons.IH [OF rest] by (simp add: extremumStep_def)
  next
    case (Num x)
    then have "extremumStep (\<lambda>v. v) (baseGt g) None v = Some (Num x, Num x)"
      by (simp add: extremumStep_def Let_def)
    moreover have "Max (insert x (set (nums vs))) = fold max (nums vs) x"
      using Max.set_eq_fold [of x "nums vs"] by simp
    ultimately show ?thesis
      using Num fold_max_from [OF rest, of g x] by simp
  next
    case (Area a b)
    with v show ?thesis by (simp add: isArea_def)
  qed
qed

lemma lodash_max_nums:
  assumes "\<forall>v \<in> set vs. \<not> isArea v"
  shows "lodash_max g vs = (if nums vs = [] then Undefined else Num (Max (set (nums vs))))"
  by (simp add: lodash_max_def baseExtremum_def fold_max_None [OF assms])

lemma set_dataKeys:
  "set (dataKeys en) = {k \<in> set en. k \<noteq> ''hospitalBeds'' \<and> k \<noteq> ''ICUbeds''}"
  by (auto simp: dataKeys_def)

lemma in_vals:
  "Num v \<in> set (map (getProp d) (dataKeys en)) \<longleftrightarrow>
     (\<exists>k \<in> set en. k \<noteq> ''hospitalBeds'' \<and> k \<noteq> ''ICUbeds'' \<and> getProp d k = Num v)"
  unfolding set_map image_iff set_dataKeys by (simp add: Bex_def) metis

lemma qualifying_union:
  "qualifying en series = (\<Union>d \<in> set series. set (nums (map (getProp d) (dataKeys en))))"
  unfolding qualifying_def set_nums in_vals by blast

lemma finite_qualifying: "finite (qualifying en series)"
  by (simp add: qualifying_union)

lemma yDataMax_qualifying:
  assumes "\<forall>d \<in> set series. \<forall>k \<in> set enabledPlots. \<not> isArea (getProp d k)"
  shows "yDataMax g enabledPlots series =
           (if qualifying enabledPlots series = {} then Undefined
            else Num (Max (qualifying enabledPlots series)))"
proof -
  let ?vals = "\<lambda>d. map (getProp d) (dataKeys enabledPlots)"
  let ?inner = "\<lambda>d. lodash_max g (?vals d)"
  have in_eq: "?inner d = (if nums (?vals d) = [] then Undefined else Num (Max (set (nums (?vals d)))))"
    if "d \<in> set series" for d
  proof -
    from assms that have "\<forall>v \<in> set (?vals d). \<not> isArea v"
      by (auto simp: set_dataKeys)
    then show ?thesis by (rule lodash_max_nums)
  qed
  then have noA: "\<forall>v \<in> set (map ?inner series). \<not> isArea v"
    by (auto simp: isArea_def)
  have outer: "set (nums (map ?inner series)) =
                 {Max (set (nums (?vals d))) | d. d \<in> set series \<and> nums (?vals d) \<noteq> []}"
    using in_eq by (auto simp: set_nums split: if_splits)
  have y: "yDataMax g enabledPlots series =
             (if nums (map ?inner series) = [] then Undefined
              else Num (Max (set (nums (map ?inner series)))))"
    unfolding yDataMax_def using lodash_max_nums [OF noA] by simp
  show ?thesis
  proof (cases "qualifying enabledPlots series = {}")
    case True
    then have "\<forall>d \<in> set series. nums (?vals d) = []"
      by (auto simp: qualifying_union)
    with outer have "set (nums (map ?inner series)) = {}" by auto
    with y True show ?thesis by simp
  next
    case False
    then obtain d0 where d0: "d0 \<in> set series" "nums (?vals d0) \<noteq> []"
      by (auto simp: qualifying_union)
    with outer have ne: "set (nums (map ?inner series)) \<noteq> {}" by auto
    let ?M = "Max (set (nums (map ?inner series)))"
    have "?M \<in> set (nums (map ?inner series))"
      using ne by (intro Max_in) simp_all
    with outer obtain d where d: "d \<in> set series" "nums (?vals d) \<noteq> []"
      "?M = Max (set (nums (?vals d)))"
      by auto
    then have "?M \<in> set (nums (?vals d))"
      using Max_in [of "set (nums (?vals d))"] by simp
    with d(1) have mem: "?M \<in> qualifying enabledPlots series"
      by (auto simp: qualifying_union)
    have ub: "v \<le> ?M" if "v \<in> qualifying enabledPlots series" for v
    proof -
      from that obtain e where e: "e \<in> set series" "v \<in> set (nums (?vals e))"
        by (auto simp: qualifying_union)
      then have "v \<le> Max (set (nums (?vals e)))" by simp
      moreover from e have "Max (set (nums (?vals e))) \<in> set (nums (map ?inner series))"
        unfolding outer by auto
      then have "Max (set (nums (?vals e))) \<le> ?M" by simp
      ultimately show ?thesis by simp
    qed
    have "Max (qualifying enabledPlots series) = ?M"
      using finite_qualifying mem ub by (intro Max_eqI) auto
    with y ne False show ?thesis by auto
  qed
qed

lemma yDataMax_sameButReference:
  assumes "sameButReference s s'"
  shows "yDataMax g enabledPlots s = yDataMax g enabledPlots s'"
proof -
  have "map (\<lambda>d. lodash_max g (map (getProp d) (dataKeys enabledPlots))) s
          = map (\<lambda>d. lodash_max g (map (getProp d) (dataKeys enabledPlots))) s'"
    using assms unfolding sameButReference_def
  proof (induction s s' rule: list_all2_induct)
    case Nil
    then show ?case by simp
  next
    case (Cons d ds e es)
    from Cons.hyps(1) have "map (getProp d) (dataKeys enabledPlots) = map (getProp e) (dataKeys enabledPlots)"
      by (simp add: set_dataKeys)
    with Cons.IH show ?case by (simp del: map_eq_conv)
  qed
  then show ?thesis by (simp add: yDataMax_def)
qed

text \<open>
  Claim C7. For a series whose enabled keys hold numbers or nothing (no band), \<open>yDataMax\<close>
  is the greatest number held under a key that is enabled and is neither \<open>hospitalBeds\<close> nor
  \<open>ICUbeds\<close>, and the upper bound of the value axis is that number times 1.1; with no such
  number \<open>yDataMax\<close> is \<open>undefined\<close> and the bound is not a number. Changing the values under
  the two reference keys, enabled or not, changes neither.
\<close>

theorem value_axis_maximum:
  assumes "\<forall>d \<in> set series. \<forall>k \<in> set enabledPlots. \<not> isArea (getProp d k)"
  shows "yDataMax g enabledPlots series =
           (if qualifying enabledPlots series = {} then Undefined
            else Num (Max (qualifying enabledPlots series)))
         \<and> snd (yAxisDomain isLog (yDataMax g enabledPlots series)) =
           (if qualifying enabledPlots series = {} then None
            else Some (Max (qualifying enabledPlots series) * (11 / 10)))
         \<and> (\<forall>s'. sameButReference series s' \<longrightarrow>
               yDataMax g enabledPlots s' = yDataMax g enabledPlots series)"
proof -
  note y = yDataMax_qualifying [OF assms, of g]
  have "snd (yAxisDomain isLog (yDataMax g enabledPlots series)) =
           (if qualifying enabledPlots series = {} then None
            else Some (Max (qualifying enabledPlots series) * (11 / 10)))"
    unfolding y by (simp add: yAxisDomain_def yAxisMax_def)
  moreover have "\<forall>s'. sameButReference series s' \<longrightarrow>
               yDataMax g enabledPlots s' = yDataMax g enabledPlots series"
    using yDataMax_sameButReference [of series] by simp
  ultimately show ?thesis using y by blast
qed

theorem value_axis_maximum_witness:
  "qualifying [''susceptible'', ''hospitalBeds''] (seriesA 5000) = {100, 90}
   \<and> yDataMax arrGtNever [''susceptible'', ''hospitalBeds''] (seriesA 5000) = Num 100
   \<and> snd (yAxisDomain False (yDataMax arrGtNever [''susceptible'', ''hospitalBeds''] (seriesA 5000))) = Some 110
   \<and> sameButReference (seriesA 5000) (seriesA 7)
   \<and> yDataMax arrGtNever [''susceptible'', ''hospitalBeds''] (seriesA 7) = Num 100"
proof -
  have h: "\<forall>d \<in> set (seriesA 5000). \<forall>k \<in> set [''susceptible'', ''hospitalBeds'']. \<not> isArea (getProp d k)"
    by (simp add: seriesA_def getProp_def isArea_def)
  have q: "qualifying [''susceptible'', ''hospitalBeds''] (seriesA 5000) = {100, 90}"
    by (auto simp: qualifying_def seriesA_def getProp_def)
  have s: "sameButReference (seriesA 5000) (seriesA 7)"
    by (simp add: sameButReference_def seriesA_def getProp_def)
  note t = value_axis_maximum [OF h, of arrGtNever False]
  from t [THEN conjunct1] q
  have a: "yDataMax arrGtNever [''susceptible'', ''hospitalBeds''] (seriesA 5000) = Num 100"
    by simp
  from t [THEN conjunct2, THEN conjunct1] q
  have b: "snd (yAxisDomain False (yDataMax arrGtNever [''susceptible'', ''hospitalBeds''] (seriesA 5000))) = Some 110"
    by simp
  from t [THEN conjunct2, THEN conjunct2] s
  have c: "yDataMax arrGtNever [''susceptible'', ''hospitalBeds''] (seriesA 7) =
          yDataMax arrGtNever [''susceptible'', ''hospitalBeds''] (seriesA 5000)"
    by blast
  from q a b s c show ?thesis by simp
qed

section \<open>Properties of the component\<close>

lemma clamp_clip: "lo \<le> hi \<Longrightarrow> clamp x lo hi = clip x lo hi"
  by (auto simp: clamp_def clip_def Let_def)

lemma observations_total: "\<exists>obs. observations en hb ib cco = Inr obs"
proof (cases cco)
  case None
  then show ?thesis by (simp add: observations_def)
next
  case (Some cc)
  then show ?thesis by (simp add: observations_Some)
qed

lemma plotData_Inr:
  assumes "plotData en props dat = Inr pd"
  shows "\<exists>tps obs.
           trajectoryData en (verifyPositive (hospitalBeds (population props)))
             (verifyPositive (ICUBeds (population props))) (trajectory dat) = Inr tps
           \<and> observations en (verifyPositive (hospitalBeds (population props)))
               (verifyPositive (ICUBeds (population props))) (caseCounts props) = Inr obs
           \<and> pd = tps @ obs"
  using assms by (auto simp: plotData_def Let_def split: sum.splits)

lemma plotData_total:
  assumes "length (lower (trajectory dat)) = length (mean (trajectory dat))"
    and "length (upper (trajectory dat)) = length (mean (trajectory dat))"
  shows "\<exists>pd. plotData en props dat = Inr pd"
proof -
  obtain obs where "observations en (verifyPositive (hospitalBeds (population props)))
               (verifyPositive (ICUBeds (population props))) (caseCounts props) = Inr obs"
    using observations_total by blast
  moreover obtain tps where "trajectoryData en (verifyPositive (hospitalBeds (population props)))
             (verifyPositive (ICUBeds (population props))) (trajectory dat) = Inr tps"
    using trajectoryData_total [OF assms] by blast
  ultimately show ?thesis by (simp add: plotData_def Let_def)
qed

lemma DeterministicLinePlot_nonempty:
  assumes "data props = Some dat" and "plotData en props dat = Inr pd" and "pd \<noteq> []"
  shows "DeterministicLinePlot g en props = Inr (Some (chartOf g en props pd))"
proof -
  from assms(3) have ne: "Array_sort compareFn pd \<noteq> []"
    using length_Array_sort [of compareFn pd] by auto
  have ts: "set (map p_time (Array_sort compareFn pd)) = set (map p_time pd)"
    by (simp add: set_Array_sort)
  from assms(3) have l: "length pd \<noteq> 0" by simp
  show ?thesis
    unfolding DeterministicLinePlot_def
    by (simp add: assms l Let_def tMin_Min [OF ne] tMax_Max [OF ne] ts chartOf_def
        del: set_map)
qed

lemma DeterministicLinePlot_Some:
  assumes "DeterministicLinePlot g en props = Inr (Some chart)"
  shows "\<exists>dat pd. data props = Some dat \<and> plotData en props dat = Inr pd \<and> pd \<noteq> []
                  \<and> chart = chartOf g en props pd"
proof (cases "data props")
  case None
  with assms show ?thesis by (simp add: DeterministicLinePlot_def)
next
  case (Some dat)
  show ?thesis
  proof (cases "plotData en props dat")
    case (Inl e)
    with Some assms show ?thesis by (simp add: DeterministicLinePlot_def)
  next
    case (Inr pd)
    show ?thesis
    proof (cases "pd = []")
      case True
      with Some Inr assms show ?thesis by (simp add: DeterministicLinePlot_def)
    next
      case False
      from DeterministicLinePlot_nonempty [OF Some Inr False, of g] assms Some Inr False
      show ?thesis by simp
    qed
  qed
qed

lemma DeterministicLinePlot_total:
  assumes "\<forall>dat. data props = Some dat \<longrightarrow>
             length (lower (trajectory dat)) = length (mean (trajectory dat))
             \<and> length (upper (trajectory dat)) = length (mean (trajectory dat))"
  shows "\<exists>r. DeterministicLinePlot g en props = Inr r"
proof (cases "data props")
  case None
  then show ?thesis by (simp add: DeterministicLinePlot_def)
next
  case (Some dat)
  with assms obtain pd where pd: "plotData en props dat = Inr pd"
    using plotData_total [of dat en props] by blast
  show ?thesis
  proof (cases "pd = []")
    case True
    with Some pd show ?thesis by (simp add: DeterministicLinePlot_def)
  next
    case False
    from DeterministicLinePlot_nonempty [OF Some pd False] show ?thesis by blast
  qed
qed

lemma times_chartOf:
  assumes "pd \<noteq> []"
  shows "sorted_wrt (<) (map p_time (consolidatedPlotData (chartOf g en props pd)))"
    and "set (map p_time (consolidatedPlotData (chartOf g en props pd))) = set (map p_time pd)"
proof -
  from assms have ne: "Array_sort compareFn pd \<noteq> []"
    using length_Array_sort [of compareFn pd] by auto
  note t = times_consolidate [OF ne sorted_Array_sort]
  from t show "sorted_wrt (<) (map p_time (consolidatedPlotData (chartOf g en props pd)))"
    by (simp add: chartOf_def)
  from t show "set (map p_time (consolidatedPlotData (chartOf g en props pd))) = set (map p_time pd)"
    by (simp add: chartOf_def set_Array_sort)
qed

lemma times_trajectoryData:
  assumes "trajectoryData en hb ib tr = Inr pts"
  shows "map p_time pts = map time (mean tr)"
proof (rule nth_equalityI)
  show "length (map p_time pts) = length (map time (mean tr))"
    using collect_Inr [of _ pts] assms by (simp add: trajectoryData_def)
next
  fix i assume "i < length (map p_time pts)"
  moreover have "length pts = length (mean tr)"
    using collect_Inr [of _ pts] assms by (simp add: trajectoryData_def)
  ultimately have i: "i < length (mean tr)" by simp
  from trajectoryData_nth(2) [OF assms i] i \<open>length pts = length (mean tr)\<close>
  show "map p_time pts ! i = map time (mean tr) ! i" by simp
qed

lemma times_observations:
  assumes "observations en hb ib cco = Inr obs"
  shows "map p_time obs = (case cco of None \<Rightarrow> [] | Some cc \<Rightarrow> map e_time (nonEmptyCaseCounts cc))"
proof (cases cco)
  case None
  with assms show ?thesis by (simp add: observations_def)
next
  case (Some cc)
  let ?ne = "nonEmptyCaseCounts cc"
  from assms Some have obs: "obs = map (\<lambda>i. projr (observation en hb ib ?ne i)) [0..<length ?ne]"
    by (simp add: observations_Some)
  have "map p_time obs = map e_time ?ne"
  proof (rule nth_equalityI)
    show "length (map p_time obs) = length (map e_time ?ne)" by (simp add: obs)
  next
    fix i assume "i < length (map p_time obs)"
    then have i: "i < length ?ne" by (simp add: obs)
    from observation_in_range [OF i, of en hb ib] i
    show "map p_time obs ! i = map e_time ?ne ! i" by (auto simp: obs)
  qed
  with Some show ?thesis by simp
qed

lemma times_plotData:
  assumes "plotData en props dat = Inr pd"
  shows "map p_time pd =
           map time (mean (trajectory dat))
           @ (case caseCounts props of None \<Rightarrow> [] | Some cc \<Rightarrow> map e_time (nonEmptyCaseCounts cc))"
proof -
  from plotData_Inr [OF assms] obtain tps obs where
    "trajectoryData en (verifyPositive (hospitalBeds (population props)))
             (verifyPositive (ICUBeds (population props))) (trajectory dat) = Inr tps"
    and "observations en (verifyPositive (hospitalBeds (population props)))
               (verifyPositive (ICUBeds (population props))) (caseCounts props) = Inr obs"
    and "pd = tps @ obs"
    by blast
  then show ?thesis
    by (simp add: times_trajectoryData times_observations)
qed

text \<open>
  Claim C2. Whenever the component renders, the timestamps of the merged series are strictly
  ascending, so no timestamp occurs twice, and they are exactly the timestamps of the
  inputs: those of the mean trajectory and those of the observation records that survive
  the filter.
\<close>

theorem merged_series_strictly_ascending:
  assumes "DeterministicLinePlot g enabledPlots props = Inr (Some chart)"
  shows "sorted_wrt (<) (map p_time (consolidatedPlotData chart))
         \<and> distinct (map p_time (consolidatedPlotData chart))
         \<and> (\<exists>dat. data props = Some dat
               \<and> set (map p_time (consolidatedPlotData chart)) =
                   set (map time (mean (trajectory dat)))
                   \<union> (case caseCounts props of None \<Rightarrow> {}
                       | Some cc \<Rightarrow> set (map e_time (nonEmptyCaseCounts cc))))"
proof -
  from DeterministicLinePlot_Some [OF assms] obtain dat pd where
    d: "data props = Some dat" and p: "plotData enabledPlots props dat = Inr pd"
    and ne: "pd \<noteq> []" and c: "chart = chartOf g enabledPlots props pd"
    by blast
  note t = times_chartOf [OF ne, of g enabledPlots props]
  from t(1) have s: "sorted_wrt (<) (map p_time (consolidatedPlotData chart))"
    by (simp add: c)
  then have di: "distinct (map p_time (consolidatedPlotData chart))"
    by (simp add: strict_sorted_iff)
  have "set (map p_time (consolidatedPlotData chart)) =
                   set (map time (mean (trajectory dat)))
                   \<union> (case caseCounts props of None \<Rightarrow> {}
                       | Some cc \<Rightarrow> set (map e_time (nonEmptyCaseCounts cc)))"
    unfolding c t(2) times_plotData [OF p] by (simp split: option.split)
  with s di d show ?thesis by blast
qed

theorem merged_series_strictly_ascending_witness:
  "\<not> isl (DeterministicLinePlot arrGtNever DATA_POINTS_values propsA)
   \<and> map p_time (rendered arrGtNever DATA_POINTS_values propsA) = [0, 1, 2]"
proof -
  obtain r where r: "DeterministicLinePlot arrGtNever DATA_POINTS_values propsA = Inr r"
    using DeterministicLinePlot_total [of propsA arrGtNever DATA_POINTS_values]
    by (auto simp: propsA_def)
  obtain dat where dat: "data propsA = Some dat"
    by (simp add: propsA_def)
  then obtain pd where pd: "plotData DATA_POINTS_values propsA dat = Inr pd"
    using plotData_total [of dat DATA_POINTS_values propsA] by (auto simp: propsA_def)
  from times_plotData [OF pd] dat have "pd \<noteq> []"
    by (auto simp: propsA_def)
  from DeterministicLinePlot_nonempty [OF dat pd this, of arrGtNever]
  obtain chart where c: "DeterministicLinePlot arrGtNever DATA_POINTS_values propsA = Inr (Some chart)"
    by blast
  from merged_series_strictly_ascending [OF c] dat
  have s: "sorted_wrt (<) (map p_time (consolidatedPlotData chart))"
    and e: "set (map p_time (consolidatedPlotData chart)) = set [0, 1, 2]"
    by (auto simp: propsA_def sample_def datum_def nonEmptyCaseCounts_def truthy_def)
  have "sorted_wrt (<) [0, 1, 2::int]" by simp
  from strict_sorted_equal [OF s this] e
  have "map p_time (consolidatedPlotData chart) = [0, 1, 2]" by simp
  with c show ?thesis by (simp add: rendered_def)
qed

lemma Min_le_Max_times:
  assumes "pd \<noteq> []"
  shows "Min (set (map p_time pd)) \<le> Max (set (map p_time pd))"
proof -
  from assms have "set (map p_time pd) \<noteq> {}" by simp
  then show ?thesis by (intro Min.coboundedI Max_in) simp_all
qed

text \<open>
  Claim C8. Whenever the component renders, the merged series is not empty and, with
  \<open>tMin\<close> and \<open>tMax\<close> its least and greatest timestamp, every mitigation interval yields one
  reference area, in order, whose \<open>x1\<close> is the start clamped to \<open>[tMin, tMax]\<close>, whose \<open>x2\<close>
  is the end clamped to \<open>[tMin, tMax]\<close> and whose \<open>y2\<close> is the strength clamped to
  \<open>[0, 100]\<close>. No interval is rejected; the intervals themselves are values and stay as
  they are.
\<close>

theorem intervals_clamped:
  assumes "DeterministicLinePlot g enabledPlots props = Inr (Some chart)"
  shows "consolidatedPlotData chart \<noteq> []
         \<and> xDomain chart = (Min (set (map p_time (consolidatedPlotData chart))),
                            Max (set (map p_time (consolidatedPlotData chart))))
         \<and> length (referenceAreas chart) = length (mitigationIntervals props)
         \<and> (\<forall>j < length (mitigationIntervals props).
               x1 (referenceAreas chart ! j) =
                 clip (timeRange_tMin (mitigationIntervals props ! j)) (fst (xDomain chart)) (snd (xDomain chart))
               \<and> x2 (referenceAreas chart ! j) =
                 clip (timeRange_tMax (mitigationIntervals props ! j)) (fst (xDomain chart)) (snd (xDomain chart))
               \<and> y1 (referenceAreas chart ! j) = 0
               \<and> y2 (referenceAreas chart ! j) = clip (mitigationValue (mitigationIntervals props ! j)) 0 100
               \<and> ra_key (referenceAreas chart ! j) = iv_id (mitigationIntervals props ! j)
               \<and> fill (referenceAreas chart ! j) = iv_color (mitigationIntervals props ! j)
               \<and> label_value (referenceAreas chart ! j) = iv_name (mitigationIntervals props ! j))"
proof -
  from DeterministicLinePlot_Some [OF assms] obtain dat pd where
    ne: "pd \<noteq> []" and c: "chart = chartOf g enabledPlots props pd"
    by blast
  note t = times_chartOf(2) [OF ne, of g enabledPlots props]
  have a: "consolidatedPlotData chart \<noteq> []"
    by (simp add: c chartOf_def consolidate_nonempty)
  have b: "xDomain chart = (Min (set (map p_time (consolidatedPlotData chart))),
                            Max (set (map p_time (consolidatedPlotData chart))))"
    unfolding c t by (simp add: chartOf_def)
  have x: "fst (xDomain chart) \<le> snd (xDomain chart)"
    using Min_le_Max_times [OF ne] by (simp add: c chartOf_def)
  have r: "referenceAreas chart =
             map (referenceArea (fst (xDomain chart)) (snd (xDomain chart))) (mitigationIntervals props)"
    by (simp add: c chartOf_def)
  have "(0::real) \<le> 100" by simp
  note cl = clamp_clip [OF x] clamp_clip [OF this]
  have "length (referenceAreas chart) = length (mitigationIntervals props)
         \<and> (\<forall>j < length (mitigationIntervals props).
               x1 (referenceAreas chart ! j) =
                 clip (timeRange_tMin (mitigationIntervals props ! j)) (fst (xDomain chart)) (snd (xDomain chart))
               \<and> x2 (referenceAreas chart ! j) =
                 clip (timeRange_tMax (mitigationIntervals props ! j)) (fst (xDomain chart)) (snd (xDomain chart))
               \<and> y1 (referenceAreas chart ! j) = 0
               \<and> y2 (referenceAreas chart ! j) = clip (mitigationValue (mitigationIntervals props ! j)) 0 100
               \<and> ra_key (referenceAreas chart ! j) = iv_id (mitigationIntervals props ! j)
               \<and> fill (referenceAreas chart ! j) = iv_color (mitigationIntervals props ! j)
               \<and> label_value (referenceAreas chart ! j) = iv_name (mitigationIntervals props ! j))"
    unfolding r by (simp add: referenceArea_def cl)
  with a b show ?thesis by blast
qed

theorem intervals_clamped_witness:
  "\<not> isl (DeterministicLinePlot arrGtNever DATA_POINTS_values propsA)
   \<and> map x1 (referenceAreas (the (projr (DeterministicLinePlot arrGtNever DATA_POINTS_values propsA)))) = [0]
   \<and> map x2 (referenceAreas (the (projr (DeterministicLinePlot arrGtNever DATA_POINTS_values propsA)))) = [1]
   \<and> map y2 (referenceAreas (the (projr (DeterministicLinePlot arrGtNever DATA_POINTS_values propsA)))) = [100]
   \<and> xDomain (the (projr (DeterministicLinePlot arrGtNever DATA_POINTS_values propsA))) = (0, 2)"
proof -
  obtain dat where dat: "data propsA = Some dat"
    by (simp add: propsA_def)
  then obtain pd where pd: "plotData DATA_POINTS_values propsA dat = Inr pd"
    using plotData_total [of dat DATA_POINTS_values propsA] by (auto simp: propsA_def)
  from times_plotData [OF pd] dat have ts: "map p_time pd = [0, 1, 1, 2]"
    by (auto simp: propsA_def sample_def datum_def nonEmptyCaseCounts_def truthy_def)
  then have ne: "pd \<noteq> []" by auto
  from DeterministicLinePlot_nonempty [OF dat pd ne, of arrGtNever]
  have c: "DeterministicLinePlot arrGtNever DATA_POINTS_values propsA =
             Inr (Some (chartOf arrGtNever DATA_POINTS_values propsA pd))"
    by blast
  let ?chart = "chartOf arrGtNever DATA_POINTS_values propsA pd"
  have xd: "xDomain ?chart = (0, 2)"
    by (simp add: chartOf_def ts)
  have len: "length (mitigationIntervals propsA) = 1" and j: "0 < length (mitigationIntervals propsA)"
    by (simp_all add: propsA_def)
  note t = intervals_clamped [OF c]
  from t have l: "length (referenceAreas ?chart) = 1"
    using len by simp
  from t j have
    "x1 (referenceAreas ?chart ! 0) =
       clip (timeRange_tMin (mitigationIntervals propsA ! 0)) (fst (xDomain ?chart)) (snd (xDomain ?chart))"
    "x2 (referenceAreas ?chart ! 0) =
       clip (timeRange_tMax (mitigationIntervals propsA ! 0)) (fst (xDomain ?chart)) (snd (xDomain ?chart))"
    "y2 (referenceAreas ?chart ! 0) = clip (mitigationValue (mitigationIntervals propsA ! 0)) 0 100"
    by blast+
  then have v: "x1 (referenceAreas ?chart ! 0) = 0" "x2 (referenceAreas ?chart ! 0) = 1"
    "y2 (referenceAreas ?chart ! 0) = 100"
    unfolding xd by (simp_all add: propsA_def clip_def)
  from l obtain ra where ra: "referenceAreas ?chart = [ra]"
    by (cases "referenceAreas ?chart") auto
  with v have "map x1 (referenceAreas ?chart) = [0]" "map x2 (referenceAreas ?chart) = [1]"
    "map y2 (referenceAreas ?chart) = [100]"
    by simp_all
  with c xd show ?thesis by simp
qed

lemma getProp_spread:
  "getProp (spread a d) k =
     (if k = ''time'' then getProp d k
      else case p_fields d k of None \<Rightarrow> getProp a k | Some v \<Rightarrow> v)"
  by (simp add: getProp_def spread_def map_add_def split: option.split)

lemma observationFields_keys:
  "observationFields en hb ib d nc k = None \<or>
   k = ''cases'' \<or> k = ''observedDeaths'' \<or> k = ''currentHospitalized'' \<or> k = ''ICU'' \<or>
   k = ''newCases'' \<or> k = ''hospitalBeds'' \<or> k = ''ICUbeds''"
  by (simp add: observationFields_def)

lemma plotFields_keys:
  "plotFields en hb ib lo up x i k = None \<or>
   k = ''susceptible'' \<or> k = ''infectious'' \<or> k = ''severe'' \<or> k = ''critical'' \<or>
   k = ''overflow'' \<or> k = ''recovered'' \<or> k = ''fatality'' \<or>
   k = ''hospitalBeds'' \<or> k = ''ICUbeds'' \<or>
   k = ''susceptible_area'' \<or> k = ''infectious_area'' \<or> k = ''severe_area'' \<or>
   k = ''critical_area'' \<or> k = ''overflow_area'' \<or> k = ''recovered_area'' \<or>
   k = ''fatality_area''"
  by (simp add: plotFields_def)

lemma union_computed_then_observed:
  fixes tp ob :: PlotDatum
  assumes "tp = \<lparr>p_time = t, p_fields = plotFields en hb ib lo up x i\<rparr>"
    and "ob = \<lparr>p_time = t, p_fields = observationFields en hb ib d nc\<rparr>"
  shows "getProp (spread tp ob) k = (if getProp ob k \<noteq> Undefined then getProp ob k else getProp tp k)"
proof (cases "k = ''time''")
  case True
  then show ?thesis by (simp add: getProp_spread) (simp add: getProp_def assms)
next
  case False
  from observationFields_keys [of en hb ib d nc k] show ?thesis
    by (elim disjE)
      (simp_all add: getProp_spread False, simp_all add: getProp_def assms observationFields_def plotFields_def)
qed

lemma union_observed_then_computed:
  fixes tp ob :: PlotDatum
  assumes "tp = \<lparr>p_time = t, p_fields = plotFields en hb ib lo up x i\<rparr>"
    and "ob = \<lparr>p_time = t, p_fields = observationFields en hb ib d nc\<rparr>"
  shows "getProp (spread ob tp) k = (if getProp tp k \<noteq> Undefined then getProp tp k else getProp ob k)"
proof (cases "k = ''time''")
  case True
  then show ?thesis by (simp add: getProp_spread) (simp add: getProp_def assms)
next
  case False
  from plotFields_keys [of en hb ib lo up x i k] show ?thesis
    by (elim disjE)
      (simp_all add: getProp_spread False, simp_all add: getProp_def assms observationFields_def plotFields_def)
qed

text \<open>
  Claim C1, as the code has it. When a point \<open>d\<close> arrives with the timestamp of the last
  consolidated point, that point is replaced by the object spread of the two: every own
  property of \<open>d\<close> overrides, whether its value is defined or \<open>undefined\<close>, and a key that
  is no own property of \<open>d\<close> keeps the earlier value. So a defined value of the later point
  always wins or is added, and a key the later point lacks never erases. For a computed and
  an observed point of the same instant, in either order, the result is the field-wise
  union of the two.
\<close>

theorem consolidation_spreads_later_point:
  assumes "acc \<noteq> []" and "p_time d = p_time (last acc)"
  shows "\<exists>r. consolidateStep acc d = butlast acc @ [r]
           \<and> consolidate [last acc, d] = [r]
           \<and> p_time r = p_time d
           \<and> (\<forall>k. p_fields r k = (case p_fields d k of None \<Rightarrow> p_fields (last acc) k | Some v \<Rightarrow> Some v))
           \<and> (\<forall>k. getProp d k \<noteq> Undefined \<longrightarrow> getProp r k = getProp d k)
           \<and> (\<forall>k. p_fields d k = None \<longrightarrow> getProp r k = getProp (last acc) k)
           \<and> (\<forall>en hb ib lo up x i e nc k.
                 last acc = \<lparr>p_time = p_time d, p_fields = plotFields en hb ib lo up x i\<rparr>
                 \<and> d = \<lparr>p_time = p_time d, p_fields = observationFields en hb ib e nc\<rparr>
                 \<or> d = \<lparr>p_time = p_time d, p_fields = plotFields en hb ib lo up x i\<rparr>
                   \<and> last acc = \<lparr>p_time = p_time d, p_fields = observationFields en hb ib e nc\<rparr>
                 \<longrightarrow> getProp r k = (if getProp d k \<noteq> Undefined then getProp d k else getProp (last acc) k))"
proof (intro exI [of _ "spread (last acc) d"] conjI allI impI)
  show "consolidateStep acc d = butlast acc @ [spread (last acc) d]"
    using assms(2) by (simp add: consolidateStep_def)
  show "consolidate [last acc, d] = [spread (last acc) d]"
    using assms(2) by (simp add: consolidate_pair)
  show "p_time (spread (last acc) d) = p_time d"
    by (simp add: spread_def)
next
  fix k
  show "p_fields (spread (last acc) d) k =
          (case p_fields d k of None \<Rightarrow> p_fields (last acc) k | Some v \<Rightarrow> Some v)"
    by (simp add: spread_def map_add_def)
next
  fix k assume u: "getProp d k \<noteq> Undefined"
  show "getProp (spread (last acc) d) k = getProp d k"
  proof (cases "k = ''time''")
    case True
    then show ?thesis by (simp add: getProp_spread)
  next
    case False
    with u obtain v where "p_fields d k = Some v"
      by (cases "p_fields d k") (simp_all add: getProp_def)
    with False show ?thesis by (simp add: getProp_spread) (simp add: getProp_def)
  qed
next
  fix k assume "p_fields d k = None"
  then show "getProp (spread (last acc) d) k = getProp (last acc) k"
    using assms(2) by (simp add: getProp_spread) (simp add: getProp_def)
next
  fix en hb ib lo up x i e nc k
  assume "last acc = \<lparr>p_time = p_time d, p_fields = plotFields en hb ib lo up x i\<rparr>
            \<and> d = \<lparr>p_time = p_time d, p_fields = observationFields en hb ib e nc\<rparr>
          \<or> d = \<lparr>p_time = p_time d, p_fields = plotFields en hb ib lo up x i\<rparr>
            \<and> last acc = \<lparr>p_time = p_time d, p_fields = observationFields en hb ib e nc\<rparr>"
  then show "getProp (spread (last acc) d) k =
               (if getProp d k \<noteq> Undefined then getProp d k else getProp (last acc) k)"
    using union_computed_then_observed [of "last acc" "p_time d" en hb ib lo up x i d e nc k]
      union_observed_then_computed [of d "p_time d" en hb ib lo up x i "last acc" e nc k]
    by blast
qed

lemma plotData_propsDup:
  "plotData DATA_POINTS_values propsDup emptyData =
     Inr [\<lparr>p_time = 5,
           p_fields = observationFields DATA_POINTS_values None None (datum 5 (Some 5) (Some 0)) None\<rparr>,
          \<lparr>p_time = 5,
           p_fields = observationFields DATA_POINTS_values None None (datum 5 (Some 0) (Some 1)) None\<rparr>]"
proof -
  have ne: "nonEmptyCaseCounts [datum 5 (Some 5) (Some 0), datum 5 (Some 0) (Some 1)] =
              [datum 5 (Some 5) (Some 0), datum 5 (Some 0) (Some 1)]"
    by (simp add: nonEmptyCaseCounts_def datum_def truthy_def)
  have nc: "newCases [datum 5 (Some 5) (Some 0), datum 5 (Some 0) (Some 1)] 0 = Inr None"
    "newCases [datum 5 (Some 5) (Some 0), datum 5 (Some 0) (Some 1)] (Suc 0) = Inr None"
    by (simp_all add: newCases_def caseStep_def)
  have en: "''newCases'' \<in> set DATA_POINTS_values"
    by (simp add: DATA_POINTS_values_def)
  have e: "e_time (datum 5 c dd) = 5" for c dd
    by (simp add: datum_def)
  have "observations DATA_POINTS_values None None (caseCounts propsDup) =
     Inr [\<lparr>p_time = 5,
           p_fields = observationFields DATA_POINTS_values None None (datum 5 (Some 5) (Some 0)) None\<rparr>,
          \<lparr>p_time = 5,
           p_fields = observationFields DATA_POINTS_values None None (datum 5 (Some 0) (Some 1)) None\<rparr>]"
    by (simp add: propsDup_def observations_def ne Let_def observation_def nc e en)
  then show ?thesis
    by (simp add: plotData_def Let_def trajectoryData_def emptyData_def verifyPositive_def propsDup_def)
qed

text \<open>
  Claim C1 as stated fails. The two observation points of \<open>propsDup\<close> share the timestamp 5;
  the first holds \<open>cases = 5\<close>, the second holds \<open>cases\<close> as \<open>undefined\<close>. The consolidated
  point has \<open>cases\<close> \<open>undefined\<close>: the absent field of the later point erased the defined
  value of the earlier one. Were the two consolidated in the other order, the defined
  \<open>observedDeaths\<close> would be erased instead.
\<close>

theorem undefined_erases_counterexample:
  "map p_time (projr (plotData DATA_POINTS_values propsDup emptyData)) = [5, 5]
   \<and> column ''cases'' (projr (plotData DATA_POINTS_values propsDup emptyData)) = [Num 5, Undefined]
   \<and> column ''observedDeaths'' (projr (plotData DATA_POINTS_values propsDup emptyData)) = [Undefined, Num 1]
   \<and> \<not> isl (DeterministicLinePlot arrGtNever DATA_POINTS_values propsDup)
   \<and> map p_time (rendered arrGtNever DATA_POINTS_values propsDup) = [5]
   \<and> column ''cases'' (rendered arrGtNever DATA_POINTS_values propsDup) = [Undefined]
   \<and> column ''observedDeaths''
       (consolidate (rev (projr (plotData DATA_POINTS_values propsDup emptyData)))) = [Undefined]"
proof -
  let ?a = "\<lparr>p_time = 5,
           p_fields = observationFields DATA_POINTS_values None None (datum 5 (Some 5) (Some 0)) None\<rparr>"
  let ?b = "\<lparr>p_time = 5,
           p_fields = observationFields DATA_POINTS_values None None (datum 5 (Some 0) (Some 1)) None\<rparr>"
  have d: "data propsDup = Some emptyData"
    by (simp add: propsDup_def)
  have c: "DeterministicLinePlot arrGtNever DATA_POINTS_values propsDup =
             Inr (Some (chartOf arrGtNever DATA_POINTS_values propsDup [?a, ?b]))"
    using DeterministicLinePlot_nonempty [OF d plotData_propsDup] by simp
  have s: "Array_sort compareFn [?a, ?b] = [?a, ?b]"
    by (simp add: Array_sort_def compareFn_def)
  have r: "rendered arrGtNever DATA_POINTS_values propsDup = [spread ?a ?b]"
    by (simp add: rendered_def c chartOf_def s consolidate_pair)
  have v: "getProp ?a ''cases'' = Num 5" "getProp ?b ''cases'' = Undefined"
    "getProp ?a ''observedDeaths'' = Undefined" "getProp ?b ''observedDeaths'' = Num 1"
    by (simp_all add: getProp_def observationFields_def DATA_POINTS_values_def datum_def orUndefined_def)
  have k: "p_fields ?b ''cases'' = Some Undefined" "p_fields ?a ''observedDeaths'' = Some Undefined"
    by (simp_all add: observationFields_def DATA_POINTS_values_def datum_def orUndefined_def)
  have "getProp (spread ?a ?b) ''cases'' = Undefined" "getProp (spread ?b ?a) ''observedDeaths'' = Undefined"
    by (simp_all only: getProp_spread k) simp_all
  with v show ?thesis
    by (simp add: plotData_propsDup c r column_def consolidate_pair spread_def)
qed

theorem consolidation_spreads_later_point_witness:
  "consolidate [\<lparr>p_time = 5, p_fields = map_of [(''infectious'', Num 20)]\<rparr>,
                \<lparr>p_time = 5, p_fields = map_of [(''cases'', Num 7)]\<rparr>]
     = [\<lparr>p_time = 5, p_fields = map_of [(''infectious'', Num 20)] ++ map_of [(''cases'', Num 7)]\<rparr>]
   \<and> column ''infectious''
        (consolidate [\<lparr>p_time = 5, p_fields = map_of [(''infectious'', Num 20)]\<rparr>,
                      \<lparr>p_time = 5, p_fields = map_of [(''cases'', Num 7)]\<rparr>]) = [Num 20]
   \<and> column ''cases''
        (consolidate [\<lparr>p_time = 5, p_fields = map_of [(''infectious'', Num 20)]\<rparr>,
                      \<lparr>p_time = 5, p_fields = map_of [(''cases'', Num 7)]\<rparr>]) = [Num 7]"
proof -
  let ?a = "\<lparr>p_time = 5, p_fields = map_of [(''infectious'', Num 20)]\<rparr>"
  let ?d = "\<lparr>p_time = 5, p_fields = map_of [(''cases'', Num 7)]\<rparr>"
  have n: "[?a] \<noteq> []" and t: "p_time ?d = p_time (last [?a])"
    by simp_all
  from consolidation_spreads_later_point [OF n t] obtain r where
    c: "consolidate [last [?a], ?d] = [r]"
    and p: "p_time r = p_time ?d"
    and f: "\<forall>k. p_fields r k = (case p_fields ?d k of None \<Rightarrow> p_fields (last [?a]) k | Some v \<Rightarrow> Some v)"
    and h: "\<forall>k. getProp ?d k \<noteq> Undefined \<longrightarrow> getProp r k = getProp ?d k"
    and g: "\<forall>k. p_fields ?d k = None \<longrightarrow> getProp r k = getProp (last [?a]) k"
    by blast
  from f have "p_fields r = map_of [(''infectious'', Num 20)] ++ map_of [(''cases'', Num 7)]"
    by (intro ext) (simp add: map_add_def)
  with p have r: "r = \<lparr>p_time = 5, p_fields = map_of [(''infectious'', Num 20)] ++ map_of [(''cases'', Num 7)]\<rparr>"
    by (cases r) simp
  from g [rule_format, of "''infectious''"] have "getProp r ''infectious'' = Num 20"
    by (simp add: getProp_def)
  moreover from h [rule_format, of "''cases''"] have "getProp r ''cases'' = Num 7"
    by (simp add: getProp_def)
  ultimately show ?thesis using c r
    by (simp add: column_def)
qed

lemma DATA_POINTS_values_cases:
  assumes "k \<in> set DATA_POINTS_values"
  shows "k = ''exposed'' \<or> k = ''susceptible'' \<or> k = ''infectious'' \<or> k = ''severe'' \<or>
         k = ''critical'' \<or> k = ''overflow'' \<or> k = ''recovered'' \<or> k = ''fatality'' \<or>
         k = ''cumulativeCases'' \<or> k = ''newCases'' \<or> k = ''hospitalBeds'' \<or> k = ''ICUbeds'' \<or>
         k = ''observedDeaths'' \<or> k = ''cases'' \<or> k = ''currentHospitalized'' \<or> k = ''ICU''"
proof -
  from assms have "k = ''exposed'' \<or> k = ''susceptible'' \<or> k = ''infectious'' \<or> k = ''severe'' \<or>
         k = ''critical'' \<or> k = ''overflow'' \<or> k = ''recovered'' \<or> k = ''fatality'' \<or>
         k = ''cumulativeCases'' \<or> k = ''newCases'' \<or> k = ''hospitalBeds'' \<or> k = ''ICUbeds'' \<or>
         k = ''observedDeaths'' \<or> k = ''cases'' \<or> k = ''currentHospitalized'' \<or> k = ''ICU'' \<or>
         k = ''newCases''"
    by (simp add: DATA_POINTS_values_def)
  then show ?thesis
    by (elim disjE) simp_all
qed

lemma plotFields_disabled:
  assumes "k \<in> set DATA_POINTS_values" and "k \<noteq> ''hospitalBeds''" and "k \<noteq> ''ICUbeds''"
    and "k \<notin> set en"
  shows "getProp \<lparr>p_time = t, p_fields = plotFields en hb ib lo up x i\<rparr> k = Undefined"
  using DATA_POINTS_values_cases [OF assms(1)] assms(2-)
  by (elim disjE) (simp_all add: getProp_def plotFields_def)

lemma observationFields_disabled:
  assumes "k \<in> set DATA_POINTS_values" and "k \<noteq> ''hospitalBeds''" and "k \<noteq> ''ICUbeds''"
    and "k \<notin> set en"
  shows "getProp \<lparr>p_time = t,
            p_fields = observationFields en hb ib d (if ''newCases'' \<in> set en then nc else None)\<rparr> k
           = Undefined"
  using DATA_POINTS_values_cases [OF assms(1)] assms(2-)
  by (elim disjE) (simp_all add: getProp_def observationFields_def optToJs_def)

lemma plotData_disabled:
  assumes "plotData en props dat = Inr pd"
    and "k \<in> set DATA_POINTS_values" and "k \<noteq> ''hospitalBeds''" and "k \<noteq> ''ICUbeds''"
    and "k \<notin> set en"
  shows "\<forall>d \<in> set pd. getProp d k = Undefined"
proof -
  let ?hb = "verifyPositive (hospitalBeds (population props))"
  let ?ib = "verifyPositive (ICUBeds (population props))"
  from plotData_Inr [OF assms(1)] obtain tps obs where
    t: "trajectoryData en ?hb ?ib (trajectory dat) = Inr tps"
    and o: "observations en ?hb ?ib (caseCounts props) = Inr obs"
    and pd: "pd = tps @ obs"
    by blast
  have "getProp d k = Undefined" if "d \<in> set tps" for d
  proof -
    from that obtain i where i: "i < length tps" and d: "d = tps ! i"
      by (auto simp: in_set_conv_nth)
    have "length tps = length (mean (trajectory dat))"
      using arg_cong [OF times_trajectoryData [OF t], of length] by simp
    with i have "i < length (mean (trajectory dat))" by simp
    from trajectoryData_nth(2) [OF t this] d
    have "d = \<lparr>p_time = time (mean (trajectory dat) ! i),
               p_fields = plotFields en ?hb ?ib (lower (trajectory dat)) (upper (trajectory dat))
                            (mean (trajectory dat) ! i) i\<rparr>"
      by simp
    then show ?thesis
      by (simp only: plotFields_disabled [OF assms(2-)])
  qed
  moreover have "getProp d k = Undefined" if "d \<in> set obs" for d
  proof (cases "caseCounts props")
    case None
    with o that show ?thesis by (simp add: observations_def)
  next
    case (Some cc)
    let ?ne = "nonEmptyCaseCounts cc"
    from o Some have obs: "obs = map (\<lambda>i. projr (observation en ?hb ?ib ?ne i)) [0..<length ?ne]"
      by (simp add: observations_Some)
    with that obtain i where i: "i < length ?ne" and d: "d = projr (observation en ?hb ?ib ?ne i)"
      by auto
    from observation_in_range [OF i, of en ?hb ?ib] d obtain nc where
      "d = \<lparr>p_time = e_time (?ne ! i),
            p_fields = observationFields en ?hb ?ib (?ne ! i) (if ''newCases'' \<in> set en then nc else None)\<rparr>"
      by auto
    then show ?thesis
      by (simp only: observationFields_disabled [OF assms(2-)])
  qed
  ultimately show ?thesis by (auto simp: pd)
qed

lemma spread_disabled:
  assumes "k \<noteq> ''time''" and "getProp a k = Undefined" and "getProp d k = Undefined"
  shows "getProp (spread a d) k = Undefined"
proof (cases "p_fields d k")
  case None
  with assms(1,2) show ?thesis by (simp add: getProp_spread)
next
  case (Some v)
  with assms(1,3) have "v = Undefined" by (simp add: getProp_def)
  with Some assms(1) show ?thesis by (simp add: getProp_spread)
qed

lemma chartOf_disabled:
  assumes "pd \<noteq> []" and "k \<noteq> ''time''" and "\<forall>d \<in> set pd. getProp d k = Undefined"
  shows "\<forall>d \<in> set (consolidatedPlotData (chartOf g en props pd)). getProp d k = Undefined"
proof -
  define P where "P = (\<lambda>d. getProp d k = Undefined)"
  from assms(1) have ne: "Array_sort compareFn pd \<noteq> []"
    using length_Array_sort [of compareFn pd] by auto
  from assms(3) have all: "\<forall>d \<in> set (Array_sort compareFn pd). P d"
    by (simp add: set_Array_sort P_def)
  have step: "P (spread a d)" if "P a" "P d" for a d
    using that spread_disabled [OF assms(2)] by (simp add: P_def)
  have "\<forall>r \<in> set (consolidate (Array_sort compareFn pd)). P r"
    using step ne all by (rule consolidate_pred)
  then show ?thesis by (simp add: chartOf_def P_def)
qed

lemma rendered_chart:
  assumes "DeterministicLinePlot g en props = Inr (Some chart)"
  shows "rendered g en props = consolidatedPlotData chart"
  by (simp add: rendered_def assms)

lemma column_constant:
  assumes "\<forall>d \<in> set series. getProp d k = v"
  shows "column k series = replicate (length series) v"
  using assms unfolding column_def by (induction series) simp_all

lemma plotData_reference:
  assumes "plotData en props dat = Inr pd"
  shows "\<forall>d \<in> set pd.
           p_fields d ''hospitalBeds'' = Some (optToJs (verifyPositive (hospitalBeds (population props))))
           \<and> p_fields d ''ICUbeds'' = Some (optToJs (verifyPositive (ICUBeds (population props))))"
proof -
  let ?hb = "verifyPositive (hospitalBeds (population props))"
  let ?ib = "verifyPositive (ICUBeds (population props))"
  from plotData_Inr [OF assms] obtain tps obs where
    t: "trajectoryData en ?hb ?ib (trajectory dat) = Inr tps"
    and o: "observations en ?hb ?ib (caseCounts props) = Inr obs"
    and pd: "pd = tps @ obs"
    by blast
  have "p_fields d ''hospitalBeds'' = Some (optToJs ?hb) \<and> p_fields d ''ICUbeds'' = Some (optToJs ?ib)"
    if "d \<in> set tps" for d
  proof -
    from that obtain i where i: "i < length tps" and d: "d = tps ! i"
      by (auto simp: in_set_conv_nth)
    have "length tps = length (mean (trajectory dat))"
      using arg_cong [OF times_trajectoryData [OF t], of length] by simp
    with i have "i < length (mean (trajectory dat))" by simp
    from trajectoryData_nth(2) [OF t this] d
    have "p_fields d = plotFields en ?hb ?ib (lower (trajectory dat)) (upper (trajectory dat))
                            (mean (trajectory dat) ! i) i"
      by simp
    then show ?thesis
      by (simp add: plotFields_def)
  qed
  moreover
  have "p_fields d ''hospitalBeds'' = Some (optToJs ?hb) \<and> p_fields d ''ICUbeds'' = Some (optToJs ?ib)"
    if "d \<in> set obs" for d
  proof (cases "caseCounts props")
    case None
    with o that show ?thesis by (simp add: observations_def)
  next
    case (Some cc)
    let ?ne = "nonEmptyCaseCounts cc"
    from o Some have obs: "obs = map (\<lambda>i. projr (observation en ?hb ?ib ?ne i)) [0..<length ?ne]"
      by (simp add: observations_Some)
    with that obtain i where i: "i < length ?ne" and d: "d = projr (observation en ?hb ?ib ?ne i)"
      by auto
    from observation_in_range [OF i, of en ?hb ?ib] d obtain nc where
      "p_fields d = observationFields en ?hb ?ib (?ne ! i) (if ''newCases'' \<in> set en then nc else None)"
      by auto
    then show ?thesis
      by (simp add: observationFields_def)
  qed
  ultimately show ?thesis by (auto simp: pd)
qed

lemma spread_own_property:
  assumes "p_fields a k = Some v" and "p_fields d k = Some v"
  shows "p_fields (spread a d) k = Some v"
  using assms by (simp add: spread_def map_add_def)

lemma rendered_reference:
  "\<forall>d \<in> set (rendered g en props).
     getProp d ''hospitalBeds'' =
       (if 0 < hospitalBeds (population props) then Num (hospitalBeds (population props)) else Undefined)
     \<and> getProp d ''ICUbeds'' =
       (if 0 < ICUBeds (population props) then Num (ICUBeds (population props)) else Undefined)"
proof (cases "DeterministicLinePlot g en props")
  case (Inl e)
  then show ?thesis by (simp add: rendered_def)
next
  case (Inr r)
  show ?thesis
  proof (cases r)
    case None
    with Inr show ?thesis by (simp add: rendered_def)
  next
    case (Some chart)
    with Inr have c: "DeterministicLinePlot g en props = Inr (Some chart)" by simp
    from DeterministicLinePlot_Some [OF c] obtain dat pd where
      p: "plotData en props dat = Inr pd" and ne: "pd \<noteq> []" and ch: "chart = chartOf g en props pd"
      by blast
    define P where "P = (\<lambda>d::PlotDatum.
        p_fields d ''hospitalBeds'' = Some (optToJs (verifyPositive (hospitalBeds (population props))))
        \<and> p_fields d ''ICUbeds'' = Some (optToJs (verifyPositive (ICUBeds (population props)))))"
    from ne have sne: "Array_sort compareFn pd \<noteq> []"
      using length_Array_sort [of compareFn pd] by auto
    from plotData_reference [OF p] have all: "\<forall>d \<in> set (Array_sort compareFn pd). P d"
      by (simp add: set_Array_sort P_def)
    have step: "P (spread a d)" if "P a" "P d" for a d
      using that by (simp add: P_def spread_own_property)
    have "\<forall>d \<in> set (consolidate (Array_sort compareFn pd)). P d"
      using step sne all by (rule consolidate_pred)
    then have "\<forall>d \<in> set (rendered g en props). P d"
      by (simp add: rendered_chart [OF c] ch chartOf_def)
    then show ?thesis
      by (simp add: P_def getProp_def optToJs_def verifyPositive_def)
  qed
qed

text \<open>
  Claim C4, as the code has it. Let \<open>k\<close> be a metric key other than the two reference keys
  \<open>hospitalBeds\<close> and \<open>ICUbeds\<close>, enabled before the click and gone from \<open>enabledPlots\<close>
  after it. Then, for a trajectory whose three arrays are equally long, recomputing does
  not throw, and no point of the merged series holds a defined value under \<open>k\<close>. The two
  reference keys are another matter: for every enabled set \<open>en\<close>, every point of the merged
  series holds the capacity under \<open>hospitalBeds\<close> and under \<open>ICUbeds\<close> when that capacity is
  strictly positive, and \<open>undefined\<close> when it is not.
\<close>

theorem toggle_off_removes_metric:
  "(k \<in> set DATA_POINTS_values \<and> k \<noteq> ''hospitalBeds'' \<and> k \<noteq> ''ICUbeds''
      \<and> k \<in> set enabledPlots
      \<and> k \<notin> set (legendOnClick enabledPlots k)
      \<and> (\<forall>dat. data props = Some dat \<longrightarrow>
             length (lower (trajectory dat)) = length (mean (trajectory dat))
             \<and> length (upper (trajectory dat)) = length (mean (trajectory dat)))
    \<longrightarrow> (\<exists>r. DeterministicLinePlot g (legendOnClick enabledPlots k) props = Inr r)
        \<and> (\<forall>d \<in> set (rendered g (legendOnClick enabledPlots k) props). getProp d k = Undefined))
   \<and> (\<forall>d \<in> set (rendered g en props).
         getProp d ''hospitalBeds'' =
           (if 0 < hospitalBeds (population props) then Num (hospitalBeds (population props))
            else Undefined)
         \<and> getProp d ''ICUbeds'' =
           (if 0 < ICUBeds (population props) then Num (ICUBeds (population props))
            else Undefined))"
proof (intro conjI impI)
  assume h: "k \<in> set DATA_POINTS_values \<and> k \<noteq> ''hospitalBeds'' \<and> k \<noteq> ''ICUbeds''
      \<and> k \<in> set enabledPlots
      \<and> k \<notin> set (legendOnClick enabledPlots k)
      \<and> (\<forall>dat. data props = Some dat \<longrightarrow>
             length (lower (trajectory dat)) = length (mean (trajectory dat))
             \<and> length (upper (trajectory dat)) = length (mean (trajectory dat)))"
  let ?en = "legendOnClick enabledPlots k"
  from h have k: "k \<in> set DATA_POINTS_values" "k \<noteq> ''hospitalBeds''" "k \<noteq> ''ICUbeds''"
    "k \<notin> set ?en"
    and l: "\<forall>dat. data props = Some dat \<longrightarrow>
             length (lower (trajectory dat)) = length (mean (trajectory dat))
             \<and> length (upper (trajectory dat)) = length (mean (trajectory dat))"
    by blast+
  from DeterministicLinePlot_total [OF l, of g ?en]
  show "\<exists>r. DeterministicLinePlot g ?en props = Inr r" .
  then obtain r where r: "DeterministicLinePlot g ?en props = Inr r"
    by blast
  show "\<forall>d \<in> set (rendered g ?en props). getProp d k = Undefined"
  proof (cases r)
    case None
    with r show ?thesis by (simp add: rendered_def)
  next
    case (Some chart)
    with r have c: "DeterministicLinePlot g ?en props = Inr (Some chart)" by simp
    from DeterministicLinePlot_Some [OF c] obtain dat pd where
      p: "plotData ?en props dat = Inr pd" and ne: "pd \<noteq> []" and ch: "chart = chartOf g ?en props pd"
      by blast
    from k(1) have kt: "k \<noteq> ''time''"
      by (auto simp: DATA_POINTS_values_def)
    from plotData_disabled [OF p k]
    have "\<forall>d \<in> set pd. getProp d k = Undefined" .
    from chartOf_disabled [OF ne kt this, of g ?en props] show ?thesis
      by (simp add: rendered_chart [OF c] ch)
  qed
next
  show "\<forall>d \<in> set (rendered g en props).
         getProp d ''hospitalBeds'' =
           (if 0 < hospitalBeds (population props) then Num (hospitalBeds (population props))
            else Undefined)
         \<and> getProp d ''ICUbeds'' =
           (if 0 < ICUBeds (population props) then Num (ICUBeds (population props))
            else Undefined)"
    by (rule rendered_reference)
qed

lemma times_rendered_propsA:
  "map p_time (rendered g en propsA) = [0, 1, 2]"
proof -
  obtain dat where dat: "data propsA = Some dat"
    by (simp add: propsA_def)
  then obtain pd where pd: "plotData en propsA dat = Inr pd"
    using plotData_total [of dat en propsA] by (auto simp: propsA_def)
  from times_plotData [OF pd] dat have ts: "map p_time pd = [0, 1, 1, 2]"
    by (auto simp: propsA_def sample_def datum_def nonEmptyCaseCounts_def truthy_def)
  then have ne: "pd \<noteq> []" by auto
  note c = DeterministicLinePlot_nonempty [OF dat pd ne, of g]
  note t = times_chartOf [OF ne, of g en propsA]
  from t(2) have e: "set [0, 1, 2] = set (map p_time (consolidatedPlotData (chartOf g en propsA pd)))"
    unfolding ts by auto
  have "sorted_wrt (<) [0, 1, 2::int]" by simp
  from strict_sorted_equal [OF t(1) this e]
  have "map p_time (consolidatedPlotData (chartOf g en propsA pd)) = [0, 1, 2]"
    by simp
  then show ?thesis by (simp add: rendered_chart [OF c])
qed

theorem toggle_off_removes_metric_witness:
  "\<not> isl (DeterministicLinePlot arrGtNever (legendOnClick DATA_POINTS_values ''susceptible'') propsA)
   \<and> map p_time (rendered arrGtNever (legendOnClick DATA_POINTS_values ''susceptible'') propsA) = [0, 1, 2]
   \<and> column ''susceptible'' (rendered arrGtNever (legendOnClick DATA_POINTS_values ''susceptible'') propsA)
       = [Undefined, Undefined, Undefined]
   \<and> map p_time (rendered arrGtNever [] propsA) = [0, 1, 2]
   \<and> column ''hospitalBeds'' (rendered arrGtNever [] propsA) = [Num 5000, Num 5000, Num 5000]
   \<and> column ''ICUbeds'' (rendered arrGtNever [] propsA) = [Undefined, Undefined, Undefined]"
proof -
  let ?en = "legendOnClick DATA_POINTS_values ''susceptible''"
  have l: "\<forall>dat. data propsA = Some dat \<longrightarrow>
           length (lower (trajectory dat)) = length (mean (trajectory dat))
           \<and> length (upper (trajectory dat)) = length (mean (trajectory dat))"
    by (auto simp: propsA_def)
  have h: "''susceptible'' \<in> set DATA_POINTS_values \<and> ''susceptible'' \<noteq> ''hospitalBeds''
      \<and> ''susceptible'' \<noteq> ''ICUbeds''
      \<and> ''susceptible'' \<in> set DATA_POINTS_values
      \<and> ''susceptible'' \<notin> set ?en
      \<and> (\<forall>dat. data propsA = Some dat \<longrightarrow>
             length (lower (trajectory dat)) = length (mean (trajectory dat))
             \<and> length (upper (trajectory dat)) = length (mean (trajectory dat)))"
    using l by (simp add: legendOnClick_def DATA_POINTS_values_def)
  note t = toggle_off_removes_metric [of "''susceptible''" DATA_POINTS_values propsA arrGtNever "[]"]
  note t1 = t [THEN conjunct1, THEN mp, OF h]
  note t2 = t [THEN conjunct2]
  from t1 have n: "\<not> isl (DeterministicLinePlot arrGtNever ?en propsA)"
    by auto
  from t1 have "\<forall>d \<in> set (rendered arrGtNever ?en propsA). getProp d ''susceptible'' = Undefined"
    by blast
  from column_constant [OF this]
  have "column ''susceptible'' (rendered arrGtNever ?en propsA) =
          replicate (length (map p_time (rendered arrGtNever ?en propsA))) Undefined"
    by simp
  then have a: "column ''susceptible'' (rendered arrGtNever ?en propsA) = [Undefined, Undefined, Undefined]"
    unfolding times_rendered_propsA by (simp add: numeral_3_eq_3)
  have p: "hospitalBeds (population propsA) = 5000" "ICUBeds (population propsA) = 0"
    by (simp_all add: propsA_def)
  from t2 have "\<forall>d \<in> set (rendered arrGtNever [] propsA). getProp d ''hospitalBeds'' = Num 5000"
    and "\<forall>d \<in> set (rendered arrGtNever [] propsA). getProp d ''ICUbeds'' = Undefined"
    by (simp_all add: p)
  from column_constant [OF this(1)] column_constant [OF this(2)]
  have "column ''hospitalBeds'' (rendered arrGtNever [] propsA) =
          replicate (length (map p_time (rendered arrGtNever [] propsA))) (Num 5000)"
    and "column ''ICUbeds'' (rendered arrGtNever [] propsA) =
          replicate (length (map p_time (rendered arrGtNever [] propsA))) Undefined"
    by simp_all
  then have b: "column ''hospitalBeds'' (rendered arrGtNever [] propsA) = [Num 5000, Num 5000, Num 5000]"
    "column ''ICUbeds'' (rendered arrGtNever [] propsA) = [Undefined, Undefined, Undefined]"
    unfolding times_rendered_propsA by (simp_all add: numeral_3_eq_3)
  from n a b times_rendered_propsA [of arrGtNever ?en] times_rendered_propsA [of arrGtNever "[]"]
  show ?thesis by blast
qed

lemma hospitalBeds_after_click:
  "''hospitalBeds'' \<in> set DATA_POINTS_values
   \<and> ''hospitalBeds'' \<notin> set (legendOnClick DATA_POINTS_values ''hospitalBeds'')
   \<and> \<not> isl (DeterministicLinePlot arrGtNever (legendOnClick DATA_POINTS_values ''hospitalBeds'') propsBeds)
   \<and> map p_time (rendered arrGtNever (legendOnClick DATA_POINTS_values ''hospitalBeds'') propsBeds) = [0]
   \<and> column ''hospitalBeds''
        (rendered arrGtNever (legendOnClick DATA_POINTS_values ''hospitalBeds'') propsBeds) = [Num 100]"
proof -
  let ?en = "legendOnClick DATA_POINTS_values ''hospitalBeds''"
  let ?lo = "[sample 0 90 10]" and ?up = "[sample 0 110 30]"
  let ?pt = "\<lparr>p_time = 0,
              p_fields = plotFields ?en (Some 100) None ?lo ?up (sample 0 100 20) 0\<rparr>"
  have m: "''hospitalBeds'' \<in> set DATA_POINTS_values"
    "''hospitalBeds'' \<notin> set ?en"
    by (simp_all add: legendOnClick_def DATA_POINTS_values_def)
  have d: "data propsBeds =
             Some \<lparr>trajectory = \<lparr>mean = [sample 0 100 20], lower = ?lo, upper = ?up\<rparr>\<rparr>"
    by (simp add: propsBeds_def)
  have t: "time (sample 0 100 20) = 0"
    by (simp add: sample_def)
  have p: "plotData ?en propsBeds \<lparr>trajectory = \<lparr>mean = [sample 0 100 20], lower = ?lo, upper = ?up\<rparr>\<rparr>
             = Inr [?pt]"
    by (simp add: plotData_def Let_def propsBeds_def verifyPositive_def observations_def
        trajectoryData_def plotDatum_in_range t)
  have c: "DeterministicLinePlot arrGtNever ?en propsBeds =
             Inr (Some (chartOf arrGtNever ?en propsBeds [?pt]))"
    using DeterministicLinePlot_nonempty [OF d p] by simp
  have r: "rendered arrGtNever ?en propsBeds = [spread ?pt ?pt]"
    by (simp add: rendered_chart [OF c] chartOf_def Array_sort_def consolidate_def consolidateStep_def)
  have f: "p_fields ?pt ''hospitalBeds'' = Some (Num 100)"
    by (simp add: plotFields_def optToJs_def)
  have "getProp (spread ?pt ?pt) ''hospitalBeds'' = Num 100"
    by (simp only: getProp_spread f) simp
  with m c r show ?thesis
    by (simp add: column_def spread_def)
qed

lemma newCases_after_click:
  "''newCases'' \<in> set DATA_POINTS_values
   \<and> ''newCases'' \<in> set (legendOnClick DATA_POINTS_values ''newCases'')
   \<and> \<not> isl (DeterministicLinePlot arrGtNever (legendOnClick DATA_POINTS_values ''newCases'') propsWindow)
   \<and> map p_time (rendered arrGtNever (legendOnClick DATA_POINTS_values ''newCases'') propsWindow)
       = [0, 1, 2, 3]
   \<and> column ''newCases''
        (rendered arrGtNever (legendOnClick DATA_POINTS_values ''newCases'') propsWindow)
       = [Undefined, Undefined, Undefined, Num 40]"
proof -
  let ?en = "legendOnClick DATA_POINTS_values ''newCases''"
  let ?o0 = "\<lparr>p_time = 0, p_fields = observationFields ?en None None (datum 0 (Some 10) None) None\<rparr>"
  let ?o1 = "\<lparr>p_time = 1, p_fields = observationFields ?en None None (datum 1 (Some 20) None) None\<rparr>"
  let ?o2 = "\<lparr>p_time = 2, p_fields = observationFields ?en None None (datum 2 (Some 30) None) None\<rparr>"
  let ?o3 = "\<lparr>p_time = 3, p_fields = observationFields ?en None None (datum 3 (Some 50) None) (Some 40)\<rparr>"
  have m: "''newCases'' \<in> set DATA_POINTS_values" "''newCases'' \<in> set ?en"
    by (simp_all add: legendOnClick_def DATA_POINTS_values_def)
  have ne: "nonEmptyCaseCounts ccWindow = ccWindow"
    by (simp add: nonEmptyCaseCounts_def ccWindow_def datum_def truthy_def)
  have nc: "newCases ccWindow 0 = Inr None" "newCases ccWindow (Suc 0) = Inr None"
    "newCases ccWindow 2 = Inr None" "newCases ccWindow 3 = Inr (Some 40)"
    by (simp_all add: newCases_def caseStep_def ccWindow_def datum_def truthy_def verifyPositive_def)
  have el: "ccWindow ! 0 = datum 0 (Some 10) None" "ccWindow ! Suc 0 = datum 1 (Some 20) None"
    "ccWindow ! 2 = datum 2 (Some 30) None" "ccWindow ! 3 = datum 3 (Some 50) None"
    "length ccWindow = 4"
    by (simp_all add: ccWindow_def)
  have et: "e_time (datum t c dd) = t" for t c dd
    by (simp add: datum_def)
  have up: "[0..<4] = [0, Suc 0, 2, 3]"
    by (simp add: upt_rec)
  have ob: "observations ?en None None (Some ccWindow) = Inr [?o0, ?o1, ?o2, ?o3]"
    by (simp add: observations_def ne Let_def el up observation_def nc m et)
  have d: "data propsWindow = Some emptyData"
    by (simp add: propsWindow_def)
  have p: "plotData ?en propsWindow emptyData = Inr [?o0, ?o1, ?o2, ?o3]"
    by (simp add: plotData_def Let_def propsWindow_def verifyPositive_def ob trajectoryData_def
        emptyData_def)
  have c: "DeterministicLinePlot arrGtNever ?en propsWindow =
             Inr (Some (chartOf arrGtNever ?en propsWindow [?o0, ?o1, ?o2, ?o3]))"
    using DeterministicLinePlot_nonempty [OF d p] by simp
  have s: "Array_sort compareFn [?o0, ?o1, ?o2, ?o3] = [?o0, ?o1, ?o2, ?o3]"
    by (simp add: Array_sort_def compareFn_def)
  have sp: "p_time (spread a b) = p_time b" for a b
    by (simp add: spread_def)
  have r: "rendered arrGtNever ?en propsWindow = [spread ?o0 ?o0, ?o1, ?o2, ?o3]"
    by (simp add: rendered_chart [OF c] chartOf_def s consolidate_def consolidateStep_def sp)
  have f: "p_fields ?o0 ''newCases'' = Some Undefined" "p_fields ?o1 ''newCases'' = Some Undefined"
    "p_fields ?o2 ''newCases'' = Some Undefined" "p_fields ?o3 ''newCases'' = Some (Num 40)"
    by (simp_all add: observationFields_def optToJs_def)
  have g0: "getProp (spread ?o0 ?o0) ''newCases'' = Undefined"
    by (simp only: getProp_spread f) simp
  have g: "getProp ?o1 ''newCases'' = Undefined"
    "getProp ?o2 ''newCases'' = Undefined" "getProp ?o3 ''newCases'' = Num 40"
    by (simp_all add: getProp_def observationFields_def optToJs_def)
  have t: "map p_time [spread ?o0 ?o0, ?o1, ?o2, ?o3] = [0, 1, 2, 3]"
    by (simp add: spread_def)
  from m c g0 g t show ?thesis
    unfolding r column_def by simp
qed

text \<open>
  Claim C4 as stated fails, in two ways. With every metric enabled, one click on
  \<open>hospitalBeds\<close> removes the key from \<open>enabledPlots\<close>; recomputing \<open>propsBeds\<close> does not
  throw, and the point of the merged series still holds \<open>hospitalBeds = 100\<close>, because the
  capacity is attached whatever the enabled set is. And one click on \<open>newCases\<close>, a key of
  the legend, removes one of its two occurrences; recomputing \<open>propsWindow\<close> does not throw,
  and the last point of the merged series still holds \<open>newCases = 40\<close>.
\<close>

theorem one_click_leaves_value_counterexample:
  "''hospitalBeds'' \<in> set DATA_POINTS_values
   \<and> ''hospitalBeds'' \<notin> set (legendOnClick DATA_POINTS_values ''hospitalBeds'')
   \<and> \<not> isl (DeterministicLinePlot arrGtNever (legendOnClick DATA_POINTS_values ''hospitalBeds'') propsBeds)
   \<and> map p_time (rendered arrGtNever (legendOnClick DATA_POINTS_values ''hospitalBeds'') propsBeds) = [0]
   \<and> column ''hospitalBeds''
        (rendered arrGtNever (legendOnClick DATA_POINTS_values ''hospitalBeds'') propsBeds) = [Num 100]
   \<and> ''newCases'' \<in> set DATA_POINTS_values
   \<and> ''newCases'' \<in> set (legendOnClick DATA_POINTS_values ''newCases'')
   \<and> \<not> isl (DeterministicLinePlot arrGtNever (legendOnClick DATA_POINTS_values ''newCases'') propsWindow)
   \<and> map p_time (rendered arrGtNever (legendOnClick DATA_POINTS_values ''newCases'') propsWindow)
       = [0, 1, 2, 3]
   \<and> column ''newCases''
        (rendered arrGtNever (legendOnClick DATA_POINTS_values ''newCases'') propsWindow)
       = [Undefined, Undefined, Undefined, Num 40]"
  using hospitalBeds_after_click newCases_after_click by (simp only: simp_thms)

text \<open>
  The key \<open>newCases\<close> occurs twice in \<open>DATA_POINTS\<close> (\<open>NewCases\<close> and \<open>ObservedNewCases\<close>), and
  the click removes one occurrence. After one click on \<open>newCases\<close> the key is still in
  \<open>enabledPlots\<close> and the observations still carry the window delta.
\<close>

lemma newCases_enabled_after_one_click:
  "''newCases'' \<in> set (legendOnClick DATA_POINTS_values ''newCases'')
   \<and> ''newCases'' \<notin> set (legendOnClick (legendOnClick DATA_POINTS_values ''newCases'') ''newCases'')
   \<and> map_sum (\<lambda>e. e) (\<lambda>p. getProp p ''newCases'')
        (observation (legendOnClick DATA_POINTS_values ''newCases'') None None ccWindow 3) = Inr (Num 40)"
proof -
  have e: "''newCases'' \<in> set (legendOnClick DATA_POINTS_values ''newCases'')"
    "''newCases'' \<notin> set (legendOnClick (legendOnClick DATA_POINTS_values ''newCases'') ''newCases'')"
    by (simp_all add: legendOnClick_def DATA_POINTS_values_def)
  have n: "newCases ccWindow 3 = Inr (Some 40)"
    by (simp add: newCases_def caseStep_def ccWindow_def datum_def truthy_def verifyPositive_def)
  from e show ?thesis
    by (simp add: observation_def Let_def n getProp_def observationFields_def optToJs_def)
qed

lemma plotFields_no_band:
  assumes "k \<in> set DATA_POINTS_values"
  shows "\<not> isArea (getProp \<lparr>p_time = t, p_fields = plotFields en hb ib lo up x i\<rparr> k)"
  using DATA_POINTS_values_cases [OF assms]
  by (elim disjE)
    (simp_all add: getProp_def plotFields_def isArea_def roundOrUndefined_def optToJs_def
      split: option.split)

lemma observationFields_no_band:
  assumes "k \<in> set DATA_POINTS_values"
  shows "\<not> isArea (getProp \<lparr>p_time = t, p_fields = observationFields en hb ib d nc\<rparr> k)"
  using DATA_POINTS_values_cases [OF assms]
  by (elim disjE)
    (simp_all add: getProp_def observationFields_def isArea_def orUndefined_def optToJs_def
      split: option.split)

lemma plotData_no_band:
  assumes "plotData en props dat = Inr pd" and "k \<in> set DATA_POINTS_values"
  shows "\<forall>d \<in> set pd. \<not> isArea (getProp d k)"
proof -
  let ?hb = "verifyPositive (hospitalBeds (population props))"
  let ?ib = "verifyPositive (ICUBeds (population props))"
  from plotData_Inr [OF assms(1)] obtain tps obs where
    t: "trajectoryData en ?hb ?ib (trajectory dat) = Inr tps"
    and o: "observations en ?hb ?ib (caseCounts props) = Inr obs"
    and pd: "pd = tps @ obs"
    by blast
  have "\<not> isArea (getProp d k)" if "d \<in> set tps" for d
  proof -
    from that obtain i where i: "i < length tps" and d: "d = tps ! i"
      by (auto simp: in_set_conv_nth)
    have "length tps = length (mean (trajectory dat))"
      using arg_cong [OF times_trajectoryData [OF t], of length] by simp
    with i have "i < length (mean (trajectory dat))" by simp
    from trajectoryData_nth(2) [OF t this] d
    have "d = \<lparr>p_time = time (mean (trajectory dat) ! i),
               p_fields = plotFields en ?hb ?ib (lower (trajectory dat)) (upper (trajectory dat))
                            (mean (trajectory dat) ! i) i\<rparr>"
      by simp
    then show ?thesis
      by (simp only: plotFields_no_band [OF assms(2)] not_False_eq_True)
  qed
  moreover have "\<not> isArea (getProp d k)" if "d \<in> set obs" for d
  proof (cases "caseCounts props")
    case None
    with o that show ?thesis by (simp add: observations_def)
  next
    case (Some cc)
    let ?ne = "nonEmptyCaseCounts cc"
    from o Some have obs: "obs = map (\<lambda>i. projr (observation en ?hb ?ib ?ne i)) [0..<length ?ne]"
      by (simp add: observations_Some)
    with that obtain i where i: "i < length ?ne" and d: "d = projr (observation en ?hb ?ib ?ne i)"
      by auto
    from observation_in_range [OF i, of en ?hb ?ib] d obtain nc where
      "d = \<lparr>p_time = e_time (?ne ! i),
            p_fields = observationFields en ?hb ?ib (?ne ! i) (if ''newCases'' \<in> set en then nc else None)\<rparr>"
      by auto
    then show ?thesis
      by (simp only: observationFields_no_band [OF assms(2)] not_False_eq_True)
  qed
  ultimately show ?thesis by (auto simp: pd)
qed

lemma spread_no_band:
  assumes "\<not> isArea (getProp a k)" and "\<not> isArea (getProp d k)"
  shows "\<not> isArea (getProp (spread a d) k)"
proof (cases "k = ''time''")
  case True
  with assms(2) show ?thesis by (simp add: getProp_spread)
next
  case False
  show ?thesis
  proof (cases "p_fields d k")
    case None
    with False assms(1) show ?thesis by (simp add: getProp_spread)
  next
    case (Some v)
    with False assms(2) have "\<not> isArea v" by (simp add: getProp_def)
    with Some False show ?thesis by (simp add: getProp_spread)
  qed
qed

text \<open>
  The value axis of the component itself: when every enabled key is a key of \<open>DATA_POINTS\<close>,
  the merged series holds no band under an enabled key, and the upper bound of the axis is
  1.1 times the greatest qualifying value of the merged series.
\<close>

lemma component_value_axis:
  assumes "set enabledPlots \<subseteq> set DATA_POINTS_values"
    and "DeterministicLinePlot g enabledPlots props = Inr (Some chart)"
  shows "(\<forall>d \<in> set (consolidatedPlotData chart). \<forall>k \<in> set enabledPlots. \<not> isArea (getProp d k))
         \<and> snd (yDomain chart) =
             (if qualifying enabledPlots (consolidatedPlotData chart) = {} then None
              else Some (Max (qualifying enabledPlots (consolidatedPlotData chart)) * (11 / 10)))"
proof -
  from DeterministicLinePlot_Some [OF assms(2)] obtain dat pd where
    p: "plotData enabledPlots props dat = Inr pd" and ne: "pd \<noteq> []"
    and ch: "chart = chartOf g enabledPlots props pd"
    by blast
  from ne have sne: "Array_sort compareFn pd \<noteq> []"
    using length_Array_sort [of compareFn pd] by auto
  have nb: "\<forall>d \<in> set (consolidatedPlotData chart). \<not> isArea (getProp d k)" if "k \<in> set enabledPlots" for k
  proof -
    define P where "P = (\<lambda>d. \<not> isArea (getProp d k))"
    from that assms(1) have "k \<in> set DATA_POINTS_values" by blast
    from plotData_no_band [OF p this] have "\<forall>d \<in> set (Array_sort compareFn pd). P d"
      by (simp add: set_Array_sort P_def)
    moreover have "P (spread a d)" if "P a" "P d" for a d
      using that spread_no_band [of a k d] by (simp add: P_def)
    ultimately have "\<forall>r \<in> set (consolidate (Array_sort compareFn pd)). P r"
      using sne consolidate_pred [of P "Array_sort compareFn pd"] by blast
    then show ?thesis by (simp add: ch chartOf_def P_def)
  qed
  then have a: "\<forall>d \<in> set (consolidatedPlotData chart). \<forall>k \<in> set enabledPlots. \<not> isArea (getProp d k)"
    by blast
  have "yDomain chart = yAxisDomain (logScale props) (yDataMax g enabledPlots (consolidatedPlotData chart))"
    by (simp add: ch chartOf_def)
  then have "snd (yDomain chart) =
             (if qualifying enabledPlots (consolidatedPlotData chart) = {} then None
              else Some (Max (qualifying enabledPlots (consolidatedPlotData chart)) * (11 / 10)))"
    by (simp add: yDataMax_qualifying [OF a] yAxisDomain_def yAxisMax_def)
  with a show ?thesis by blast
qed

end
